theory Spec2Isabelle
  imports Complex_Main "HOL-Library.Word"
begin

unbundle bit_operations_syntax

section \<open>Machine types\<close>

type_synonym u8 = "8 word"
type_synonym u16 = "16 word"
type_synonym u32 = "32 word"
type_synonym u64 = "64 word"

text \<open>A \<open>std::string\<close> used as a byte buffer is a list of bytes.\<close>

type_synonym bytes = "u8 list"

definition bytes_of :: "string \<Rightarrow> bytes" where
  "bytes_of s = map of_char s"

section \<open>CRC engine (crc.cpp)\<close>

text \<open>
  One iteration of the inner loop of \<open>crc16_ccitt\<close>:
  \<^verbatim>\<open>if (crc & 0x8000) crc = (crc << 1) ^ 0x1021; else crc = crc << 1;\<close>
  The C++ expression is evaluated on \<open>int\<close> and truncated to \<open>uint16_t\<close> by the
  assignment, which is the shift and the exclusive or of 16-bit words.
\<close>

definition crc_shift :: "u16 \<Rightarrow> u16" where
  "crc_shift crc =
     (if crc AND 0x8000 \<noteq> 0 then push_bit 1 crc XOR 0x1021 else push_bit 1 crc)"

text \<open>
  The body of the outer loop for one input byte:
  \<^verbatim>\<open>crc ^= static_cast<uint16_t>(data[i]) << 8; for (j = 0; j < 8; ++j) ...\<close>
\<close>

definition crc_byte :: "u16 \<Rightarrow> u8 \<Rightarrow> u16" where
  "crc_byte crc b = (crc_shift ^^ 8) (crc XOR push_bit 8 (ucast b))"

text \<open>The loop over the buffer, from a given register value.\<close>

fun crc_loop :: "u16 \<Rightarrow> bytes \<Rightarrow> u16" where
  "crc_loop crc [] = crc"
| "crc_loop crc (b # bs) = crc_loop (crc_byte crc b) bs"

text \<open>\<open>crc::crc16_ccitt(data, len)\<close>; the buffer and its length are the list.\<close>

definition crc16_ccitt :: "bytes \<Rightarrow> u16" where
  "crc16_ccitt data = crc_loop 0xFFFF data"

text \<open>
  The algorithm as the specification words it, on natural numbers with every operation
  reduced modulo \<open>2 ^ 16\<close>: the register starts at \<open>0xFFFF\<close>; each byte is combined
  into the high byte of the register by exclusive or; then, eight times, the register is
  shifted left by one and, if its top bit was set, combined with the polynomial
  \<open>0x1021\<close>. There is no reflection and no final exclusive or.
\<close>

definition spec_shift :: "nat \<Rightarrow> nat" where
  "spec_shift r =
     (if 2 ^ 15 \<le> r mod 2 ^ 16 then ((2 * r) mod 2 ^ 16) XOR 0x1021
      else (2 * r) mod 2 ^ 16)"

definition spec_byte :: "nat \<Rightarrow> nat \<Rightarrow> nat" where
  "spec_byte r b = (spec_shift ^^ 8) (r XOR (b * 2 ^ 8))"

definition spec_crc16 :: "nat list \<Rightarrow> nat" where
  "spec_crc16 bs = foldl spec_byte 0xFFFF bs"

section \<open>Packet codec (packet.hpp, packet.cpp)\<close>

text \<open>
  \<open>enum class PacketType : uint8_t\<close>. The decoder casts any received byte to the
  enumeration, so a packet carries the raw tag.
\<close>

type_synonym PacketType = u8

definition TelemetryPkt :: PacketType where "TelemetryPkt = 1"
definition CommandPkt :: PacketType where "CommandPkt = 2"
definition AckPkt :: PacketType where "AckPkt = 3"
definition NakPkt :: PacketType where "NakPkt = 4"

record Packet =
  version :: u16
  type :: PacketType
  seq :: u32
  payload_size :: u32
  payload :: bytes
  crc16 :: u16

datatype decode_error = PacketTooShort | PayloadSizeMismatch

text \<open>Big-endian bytes of the header fields, as \<open>to_bytes\<close> pushes them.\<close>

definition be16 :: "u16 \<Rightarrow> bytes" where
  "be16 v = [ucast (drop_bit 8 v), ucast (v AND 0xFF)]"

definition be32 :: "u32 \<Rightarrow> bytes" where
  "be32 v = [ucast (drop_bit 24 v), ucast (drop_bit 16 v AND 0xFF),
             ucast (drop_bit 8 v AND 0xFF), ucast (v AND 0xFF)]"

text \<open>\<open>static_cast<uint32_t>(payload.size())\<close>: the length, truncated to 32 bits.\<close>

definition psize :: "Packet \<Rightarrow> u32" where
  "psize p = of_nat (length (payload p))"

text \<open>
  The buffer \<open>data\<close> that \<open>compute_crc\<close> and \<open>verify_crc\<close> build: the serialised
  header followed by the payload. The size bytes come from \<open>payload.size()\<close>.
\<close>

definition crc_data :: "Packet \<Rightarrow> bytes" where
  "crc_data p = be16 (version p) @ [type p] @ be32 (seq p) @ be32 (psize p) @ payload p"

definition to_bytes :: "Packet \<Rightarrow> bytes" where
  "to_bytes p =
     be16 (version p) @ [type p] @ be32 (seq p) @ be32 (psize p) @ payload p
       @ be16 (crc16 p)"

text \<open>Reading big-endian fields at a position of a buffer that is long enough.\<close>

definition rd16 :: "bytes \<Rightarrow> nat \<Rightarrow> u16" where
  "rd16 bs pos = push_bit 8 (ucast (bs ! pos)) OR ucast (bs ! (pos + 1))"

definition rd32 :: "bytes \<Rightarrow> nat \<Rightarrow> u32" where
  "rd32 bs pos =
     push_bit 24 (ucast (bs ! pos)) OR push_bit 16 (ucast (bs ! (pos + 1)))
       OR push_bit 8 (ucast (bs ! (pos + 2))) OR ucast (bs ! (pos + 3))"

text \<open>
  \<open>Packet::from_bytes\<close>. The two \<open>throw\<close> statements are the two errors. The size
  test is computed on \<open>size_t\<close>, taken to be 64 bits wide, where the sum of 11, the
  32-bit \<open>payload_size\<close> and 2 cannot wrap, so it is a test on natural numbers.
  \<open>substr(pos, n)\<close> is \<open>take n (drop pos bytes)\<close>.
\<close>

definition from_bytes :: "bytes \<Rightarrow> decode_error + Packet" where
  "from_bytes bs =
     (if length bs < 13 then Inl PacketTooShort
      else
        let psz = rd32 bs 7 in
        if length bs < 11 + unat psz + 2 then Inl PayloadSizeMismatch
        else Inr \<lparr> version = rd16 bs 0, type = bs ! 2, seq = rd32 bs 3,
                   payload_size = psz, payload = take (unat psz) (drop 11 bs),
                   crc16 = rd16 bs (11 + unat psz) \<rparr>)"

text \<open>\<open>Packet::compute_crc\<close> stores the checksum of the buffer in the packet.\<close>

definition compute_crc :: "Packet \<Rightarrow> Packet" where
  "compute_crc p = p\<lparr>crc16 := crc16_ccitt (crc_data p)\<rparr>"

definition verify_crc :: "Packet \<Rightarrow> bool" where
  "verify_crc p = (crc16_ccitt (crc_data p) = crc16 p)"

section \<open>Impairment channel (link.hpp, link.cpp, thread_safe_queue.hpp)\<close>

text \<open>
  \<open>Link::Config\<close>. The probability is a \<open>double\<close>; it is only compared with the
  drawn value, and the comparison is modelled on real numbers.
\<close>

record LinkConfig =
  latency_ms :: int
  jitter_ms :: int
  loss_prob :: real
  seed :: nat

text \<open>
  The link: the generator, the two FIFO queues (front of the queue first) and the two
  counters, which are \<open>uint64_t\<close>. The generator \<open>std::mt19937\<close> is a state of an
  arbitrary type \<open>'r\<close>; the two distributions that the send path draws from are
  parameters of the model: \<open>loss_dist\<close> draws from \<open>uniform_real_distribution(0, 1)\<close>
  and \<open>latency_dist mean stddev\<close> from \<open>normal_distribution(mean, stddev)\<close>; each
  returns the value and the advanced generator.
\<close>

record 'r Link =
  config :: LinkConfig
  rng :: 'r
  sat_to_gs :: "Packet list"
  gs_to_sat :: "Packet list"
  packets_dropped :: u64
  packets_sent :: u64

text \<open>The constructor: \<open>seed_rng\<close> is the seeding of the generator.\<close>

definition Link_new :: "(nat \<Rightarrow> 'r) \<Rightarrow> LinkConfig \<Rightarrow> 'r Link" where
  "Link_new seed_rng cfg =
     \<lparr> config = cfg, rng = seed_rng (seed cfg), sat_to_gs = [], gs_to_sat = [],
       packets_dropped = 0, packets_sent = 0 \<rparr>"

text \<open>The queue argument of \<open>apply_impairments_and_send\<close> is one of the two FIFOs.\<close>

datatype direction = SatToGs | GsToSat

definition queue_of :: "direction \<Rightarrow> 'r Link \<Rightarrow> Packet list" where
  "queue_of d l = (case d of SatToGs \<Rightarrow> sat_to_gs l | GsToSat \<Rightarrow> gs_to_sat l)"

text \<open>\<open>ThreadSafeQueue::push\<close> on the chosen queue.\<close>

definition push :: "direction \<Rightarrow> Packet \<Rightarrow> 'r Link \<Rightarrow> 'r Link" where
  "push d pkt l =
     (case d of SatToGs \<Rightarrow> l\<lparr>sat_to_gs := sat_to_gs l @ [pkt]\<rparr>
              | GsToSat \<Rightarrow> l\<lparr>gs_to_sat := gs_to_sat l @ [pkt]\<rparr>)"

text \<open>
  \<open>Link::apply_impairments_and_send\<close>. The counter of sent packets is incremented
  first; both values are drawn; a lost packet increments the counter of dropped
  packets and returns; otherwise the packet is pushed. The sleep of \<open>delay_ms\<close>
  changes no state and is left out.
\<close>

definition apply_impairments_and_send ::
  "('r \<Rightarrow> real \<times> 'r) \<Rightarrow> (real \<Rightarrow> real \<Rightarrow> 'r \<Rightarrow> real \<times> 'r) \<Rightarrow> Packet \<Rightarrow> direction
     \<Rightarrow> 'r Link \<Rightarrow> 'r Link" where
  "apply_impairments_and_send loss_dist latency_dist pkt d l =
     (let l1 = l\<lparr>packets_sent := packets_sent l + 1\<rparr>;
          (loss_value, r1) = loss_dist (rng l1);
          (lat, r2) = latency_dist (of_int (latency_ms (config l1)))
                        (of_int (jitter_ms (config l1))) r1;
          delay_ms = max 0 lat;
          l2 = l1\<lparr>rng := r2\<rparr>
      in if loss_value < loss_prob (config l2)
         then l2\<lparr>packets_dropped := packets_dropped l2 + 1\<rparr>
         else push d pkt l2)"

definition send_sat_to_gs ::
  "('r \<Rightarrow> real \<times> 'r) \<Rightarrow> (real \<Rightarrow> real \<Rightarrow> 'r \<Rightarrow> real \<times> 'r) \<Rightarrow> Packet \<Rightarrow> 'r Link \<Rightarrow> 'r Link" where
  "send_sat_to_gs loss_dist latency_dist pkt l =
     apply_impairments_and_send loss_dist latency_dist pkt SatToGs l"

definition send_gs_to_sat ::
  "('r \<Rightarrow> real \<times> 'r) \<Rightarrow> (real \<Rightarrow> real \<Rightarrow> 'r \<Rightarrow> real \<times> 'r) \<Rightarrow> Packet \<Rightarrow> 'r Link \<Rightarrow> 'r Link" where
  "send_gs_to_sat loss_dist latency_dist pkt l =
     apply_impairments_and_send loss_dist latency_dist pkt GsToSat l"

text \<open>A send call on the link, and a finite sequence of them run in order.\<close>

datatype send_call = SendSatToGs Packet | SendGsToSat Packet

fun do_send ::
  "('r \<Rightarrow> real \<times> 'r) \<Rightarrow> (real \<Rightarrow> real \<Rightarrow> 'r \<Rightarrow> real \<times> 'r) \<Rightarrow> send_call \<Rightarrow> 'r Link \<Rightarrow> 'r Link" where
  "do_send ld nd (SendSatToGs pkt) l = send_sat_to_gs ld nd pkt l"
| "do_send ld nd (SendGsToSat pkt) l = send_gs_to_sat ld nd pkt l"

fun run_sends ::
  "('r \<Rightarrow> real \<times> 'r) \<Rightarrow> (real \<Rightarrow> real \<Rightarrow> 'r \<Rightarrow> real \<times> 'r) \<Rightarrow> send_call list \<Rightarrow> 'r Link \<Rightarrow> 'r Link" where
  "run_sends ld nd [] l = l"
| "run_sends ld nd (c # cs) l = run_sends ld nd cs (do_send ld nd c l)"

text \<open>The number of packets that sit in the two FIFOs.\<close>

definition enqueued :: "'r Link \<Rightarrow> nat" where
  "enqueued l = length (sat_to_gs l) + length (gs_to_sat l)"

text \<open>
  \<open>ThreadSafeQueue::try_pop(timeout)\<close>, as the two \<open>recv\<close> functions of the link use
  it, on the content that the queue has until the timeout expires: the oldest packet
  and the rest of the queue, or nothing when the queue stays empty.
\<close>

definition try_pop :: "Packet list \<Rightarrow> Packet option \<times> Packet list" where
  "try_pop q = (case q of [] \<Rightarrow> (None, []) | pkt # rest \<Rightarrow> (Some pkt, rest))"

section \<open>Payload parsers (commands.hpp, telemetry.hpp)\<close>

datatype CommandType = AdjustOrientation | ThrustBurn | EnterSafeMode | Reboot

definition bar :: u8 where "bar = of_char CHR ''|''"
definition equals_sign :: u8 where "equals_sign = of_char CHR ''=''"

text \<open>
  \<open>Command::deserialize\<close>, as far as it decides between a command and an exception
  (\<open>None\<close>). \<open>std::getline(iss, type_str, '|')\<close> fails on the empty string; otherwise
  it reads up to the first bar. Reading the floating-point parameters from the rest of
  the stream is not modelled: \<open>adjust_ok\<close> and \<open>burn_ok\<close> say whether the extraction
  of the three parameters, or of the one, succeeds.
\<close>

definition Command_deserialize ::
  "(bytes \<Rightarrow> bool) \<Rightarrow> (bytes \<Rightarrow> bool) \<Rightarrow> bytes \<Rightarrow> CommandType option" where
  "Command_deserialize adjust_ok burn_ok s =
     (if s = [] then None
      else
        let type_str = takeWhile (\<lambda>c. c \<noteq> bar) s;
            rest = drop 1 (dropWhile (\<lambda>c. c \<noteq> bar) s)
        in if type_str = bytes_of ''ADJUST_ORIENTATION''
             then (if adjust_ok rest then Some AdjustOrientation else None)
           else if type_str = bytes_of ''THRUST_BURN''
             then (if burn_ok rest then Some ThrustBurn else None)
           else if type_str = bytes_of ''ENTER_SAFE_MODE'' then Some EnterSafeMode
           else if type_str = bytes_of ''REBOOT'' then Some Reboot
           else None)"

text \<open>
  The tokens that the loop \<open>while (std::getline(iss, token, '|'))\<close> reads: the pieces
  between bars; nothing is read once the stream is at its end.
\<close>

function getline_tokens :: "bytes \<Rightarrow> bytes list" where
  "getline_tokens s =
     (if s = [] then []
      else takeWhile (\<lambda>c. c \<noteq> bar) s
             # getline_tokens (drop 1 (dropWhile (\<lambda>c. c \<noteq> bar) s)))"
  by pat_completeness auto
termination
proof (relation "measure length")
  show "wf (measure length)" by simp
next
  fix s :: bytes
  assume "s \<noteq> []"
  then have "length (drop 1 (dropWhile (\<lambda>c. c \<noteq> bar) s)) < length s"
    by (cases s) (auto simp add: less_Suc_eq_le intro: le_trans [OF diff_le_self length_dropWhile_le])
  then show "(drop 1 (dropWhile (\<lambda>c. c \<noteq> bar) s), s) \<in> measure length" by simp
qed

text \<open>
  \<open>Telemetry::from_json\<close>, as far as it decides between returning and throwing. A
  token without \<open>=\<close> is skipped; the value of the key \<open>ts\<close> goes to \<open>std::stoll\<close> and
  the values of the six numeric keys to \<open>std::stod\<close>, which throw on a value they
  cannot convert (\<open>stoll_ok\<close>, \<open>stod_ok\<close>); other keys are ignored.
\<close>

definition token_ok :: "(bytes \<Rightarrow> bool) \<Rightarrow> (bytes \<Rightarrow> bool) \<Rightarrow> bytes \<Rightarrow> bool" where
  "token_ok stoll_ok stod_ok token =
     (if equals_sign \<notin> set token then True
      else
        let key = takeWhile (\<lambda>c. c \<noteq> equals_sign) token;
            val = drop 1 (dropWhile (\<lambda>c. c \<noteq> equals_sign) token)
        in if key = bytes_of ''ts'' then stoll_ok val
           else if key \<in> set (map bytes_of [''temp'', ''batt'', ''alt'', ''pitch'', ''yaw'', ''roll''])
             then stod_ok val
           else True)"

definition Telemetry_from_json_ok :: "(bytes \<Rightarrow> bool) \<Rightarrow> (bytes \<Rightarrow> bool) \<Rightarrow> bytes \<Rightarrow> bool" where
  "Telemetry_from_json_ok stoll_ok stod_ok s =
     list_all (token_ok stoll_ok stod_ok) (getline_tokens s)"

section \<open>ARQ endpoints (satellite.cpp, ground_station.cpp)\<close>

text \<open>
  An endpoint works on the link through its inbound FIFO and through the send function
  of the reverse direction. The model of an endpoint takes the content of the inbound
  FIFO as an input and records the packets that it hands to the send function, in call
  order, in the field \<open>link_out\<close>. The fields of the two classes have the same names
  in the source; here they carry the prefix \<open>sat_\<close> or \<open>gs_\<close>. The physical state of
  the satellite (floating-point numbers) is not modelled, apart from \<open>safe_mode_\<close>.
\<close>

text \<open>
  The reply that both endpoints build:
  \<^verbatim>\<open>Packet r; r.type = t; r.seq = s; r.payload = ""; r.payload_size = 0; r.compute_crc();\<close>
  The version has its default 1, and \<open>compute_crc\<close> overwrites the checksum.
\<close>

definition make_reply :: "PacketType \<Rightarrow> u32 \<Rightarrow> Packet" where
  "make_reply t s =
     compute_crc \<lparr> version = 1, type = t, seq = s, payload_size = 0, payload = [],
                   crc16 = 0 \<rparr>"

text \<open>
  The data packet that \<open>send_telemetry\<close> and \<open>send_command_with_retry\<close> build from
  the serialised payload.
\<close>

definition make_data :: "PacketType \<Rightarrow> u32 \<Rightarrow> bytes \<Rightarrow> Packet" where
  "make_data t s pl =
     compute_crc \<lparr> version = 1, type = t, seq = s, payload_size = of_nat (length pl),
                   payload = pl, crc16 = 0 \<rparr>"

subsection \<open>Satellite\<close>

record Satellite =
  sat_tx_seq :: u32
  sat_rx_seq_expected :: u32
  sat_safe_mode :: bool
  sat_telemetry_sent :: u64
  sat_commands_received :: u64
  sat_retries :: u64
  sat_naks_received :: u64
  sat_link_out :: "Packet list"
  sat_executed :: "(u32 \<times> CommandType) list"

text \<open>
  The state after construction. \<open>sat_executed\<close> lists the commands that the
  \<open>switch\<close> of \<open>process_commands\<close> has executed, with the sequence number of their
  packet: the deliveries to the application.
\<close>

definition Satellite_new :: Satellite where
  "Satellite_new =
     \<lparr> sat_tx_seq = 0, sat_rx_seq_expected = 0, sat_safe_mode = False,
       sat_telemetry_sent = 0, sat_commands_received = 0, sat_retries = 0,
       sat_naks_received = 0, sat_link_out = [], sat_executed = [] \<rparr>"

text \<open>
  \<open>Satellite::wait_for_ack\<close> on the content \<open>q\<close> of the FIFO from the ground station:
  one call of \<open>recv_gs_to_sat\<close>, then the test of the packet. It returns the answer, the
  rest of the FIFO and the state.
\<close>

definition sat_wait_for_ack :: "u32 \<Rightarrow> Packet list \<Rightarrow> Satellite \<Rightarrow> bool \<times> Packet list \<times> Satellite" where
  "sat_wait_for_ack s q st =
     (case try_pop q of
        (Some pkt, rest) \<Rightarrow>
          if type pkt = AckPkt \<and> seq pkt = s then (True, rest, st)
          else if type pkt = NakPkt \<and> seq pkt = s
            then (False, rest, st\<lparr>sat_naks_received := sat_naks_received st + 1\<rparr>)
          else (False, rest, st)
      | (None, rest) \<Rightarrow> (False, rest, st))"

text \<open>
  The retry loop of \<open>send_telemetry\<close>:
  \<^verbatim>\<open>for (int retry = 0; retry <= config_.max_retries && running_; ++retry)\<close>.
  The flag \<open>running_\<close> is written by another thread and the inbound FIFO is filled by
  the peer's thread, so both are inputs: \<open>running k\<close> is the value of the flag at the
  test of iteration \<open>k\<close>, and \<open>inbound k\<close> is the content of the FIFO that the wait of
  iteration \<open>k\<close> receives from (empty when the wait times out). The result is the
  variable \<open>success\<close> and the state.
\<close>

function sat_retry_loop ::
  "int \<Rightarrow> (nat \<Rightarrow> bool) \<Rightarrow> (nat \<Rightarrow> Packet list) \<Rightarrow> Packet \<Rightarrow> int \<Rightarrow> Satellite
     \<Rightarrow> bool \<times> Satellite" where
  "sat_retry_loop max_retries running inbound pkt retry st =
     (if retry \<le> max_retries \<and> running (nat retry) then
        let st1 = (if retry > 0 then st\<lparr>sat_retries := sat_retries st + 1\<rparr> else st);
            st2 = st1\<lparr>sat_link_out := sat_link_out st1 @ [pkt]\<rparr>;
            (ok, rest, st3) = sat_wait_for_ack (seq pkt) (inbound (nat retry)) st2
        in if ok then (True, st3)
           else sat_retry_loop max_retries running inbound pkt (retry + 1) st3
      else (False, st))"
  by pat_completeness auto
termination
  by (relation "measure (\<lambda>(mr, running, inbound, pkt, retry, st). nat (mr + 1 - retry))") auto

text \<open>\<open>Satellite::send_telemetry\<close>; \<open>telem\<close> is the serialised telemetry.\<close>

definition send_telemetry ::
  "int \<Rightarrow> (nat \<Rightarrow> bool) \<Rightarrow> (nat \<Rightarrow> Packet list) \<Rightarrow> bytes \<Rightarrow> Satellite \<Rightarrow> Satellite" where
  "send_telemetry max_retries running inbound telem st =
     (let pkt = make_data TelemetryPkt (sat_tx_seq st) telem;
          st0 = st\<lparr>sat_tx_seq := sat_tx_seq st + 1\<rparr>;
          (success, st1) = sat_retry_loop max_retries running inbound pkt 0 st0
      in if success then st1\<lparr>sat_telemetry_sent := sat_telemetry_sent st1 + 1\<rparr> else st1)"

text \<open>The \<open>switch\<close> over the command; only the safe mode is modelled.\<close>

definition execute_command :: "CommandType \<Rightarrow> Satellite \<Rightarrow> Satellite" where
  "execute_command cmd st =
     (case cmd of
        AdjustOrientation \<Rightarrow> st
      | ThrustBurn \<Rightarrow> st
      | EnterSafeMode \<Rightarrow> st\<lparr>sat_safe_mode := True\<rparr>
      | Reboot \<Rightarrow> st\<lparr>sat_safe_mode := False\<rparr>)"

text \<open>The body of the loop of \<open>Satellite::process_commands\<close> for one received packet.\<close>

definition sat_process_packet ::
  "(bytes \<Rightarrow> bool) \<Rightarrow> (bytes \<Rightarrow> bool) \<Rightarrow> Packet \<Rightarrow> Satellite \<Rightarrow> Satellite" where
  "sat_process_packet adjust_ok burn_ok pkt st =
     (if \<not> verify_crc pkt then
        st\<lparr>sat_link_out := sat_link_out st @ [make_reply NakPkt (seq pkt)]\<rparr>
      else if type pkt = CommandPkt then
        if seq pkt < sat_rx_seq_expected st then
          st\<lparr>sat_link_out := sat_link_out st @ [make_reply AckPkt (seq pkt)]\<rparr>
        else
          let st1 = st\<lparr>sat_rx_seq_expected := seq pkt + 1\<rparr> in
          case Command_deserialize adjust_ok burn_ok (payload pkt) of
            Some cmd \<Rightarrow>
              let st2 = st1\<lparr>sat_commands_received := sat_commands_received st1 + 1\<rparr>;
                  st3 = execute_command cmd st2;
                  st4 = st3\<lparr>sat_executed := sat_executed st3 @ [(seq pkt, cmd)]\<rparr>
              in st4\<lparr>sat_link_out := sat_link_out st4 @ [make_reply AckPkt (seq pkt)]\<rparr>
          | None \<Rightarrow>
              st1\<lparr>sat_link_out := sat_link_out st1 @ [make_reply NakPkt (seq pkt)]\<rparr>
      else st)"

text \<open>
  \<open>Satellite::process_commands\<close>: the loop receives until the FIFO is empty; \<open>q\<close> is
  the sequence of packets that it receives.
\<close>

fun process_commands ::
  "(bytes \<Rightarrow> bool) \<Rightarrow> (bytes \<Rightarrow> bool) \<Rightarrow> Packet list \<Rightarrow> Satellite \<Rightarrow> Satellite" where
  "process_commands adjust_ok burn_ok [] st = st"
| "process_commands adjust_ok burn_ok (pkt # q) st =
     process_commands adjust_ok burn_ok q (sat_process_packet adjust_ok burn_ok pkt st)"

subsection \<open>Ground station\<close>

record GroundStation =
  gs_tx_seq :: u32
  gs_rx_seq_expected :: u32
  gs_telemetry_received :: u64
  gs_commands_sent :: u64
  gs_retries :: u64
  gs_naks_sent :: u64
  gs_link_out :: "Packet list"
  gs_logged :: "(u32 \<times> bytes) list"

text \<open>
  The state after construction. \<open>gs_logged\<close> lists the telemetry passed to
  \<open>log_telemetry\<close>, with the sequence number of its packet: the deliveries to the
  application.
\<close>

definition GroundStation_new :: GroundStation where
  "GroundStation_new =
     \<lparr> gs_tx_seq = 0, gs_rx_seq_expected = 0, gs_telemetry_received = 0,
       gs_commands_sent = 0, gs_retries = 0, gs_naks_sent = 0, gs_link_out = [],
       gs_logged = [] \<rparr>"

text \<open>\<open>GroundStation::wait_for_ack\<close> on the content of the FIFO from the satellite.\<close>

definition gs_wait_for_ack ::
  "u32 \<Rightarrow> Packet list \<Rightarrow> GroundStation \<Rightarrow> bool \<times> Packet list \<times> GroundStation" where
  "gs_wait_for_ack s q st =
     (case try_pop q of
        (Some pkt, rest) \<Rightarrow>
          if type pkt = AckPkt \<and> seq pkt = s then (True, rest, st)
          else if type pkt = NakPkt \<and> seq pkt = s then (False, rest, st)
          else (False, rest, st)
      | (None, rest) \<Rightarrow> (False, rest, st))"

text \<open>The retry loop of \<open>send_command_with_retry\<close>, with the same inputs.\<close>

function gs_retry_loop ::
  "int \<Rightarrow> (nat \<Rightarrow> bool) \<Rightarrow> (nat \<Rightarrow> Packet list) \<Rightarrow> Packet \<Rightarrow> int \<Rightarrow> GroundStation
     \<Rightarrow> bool \<times> GroundStation" where
  "gs_retry_loop max_retries running inbound pkt retry st =
     (if retry \<le> max_retries \<and> running (nat retry) then
        let st1 = (if retry > 0 then st\<lparr>gs_retries := gs_retries st + 1\<rparr> else st);
            st2 = st1\<lparr>gs_link_out := gs_link_out st1 @ [pkt]\<rparr>;
            (ok, rest, st3) = gs_wait_for_ack (seq pkt) (inbound (nat retry)) st2
        in if ok then (True, st3)
           else gs_retry_loop max_retries running inbound pkt (retry + 1) st3
      else (False, st))"
  by pat_completeness auto
termination
  by (relation "measure (\<lambda>(mr, running, inbound, pkt, retry, st). nat (mr + 1 - retry))") auto

text \<open>\<open>GroundStation::send_command_with_retry\<close>; \<open>cmd\<close> is the serialised command.\<close>

definition send_command_with_retry ::
  "int \<Rightarrow> (nat \<Rightarrow> bool) \<Rightarrow> (nat \<Rightarrow> Packet list) \<Rightarrow> bytes \<Rightarrow> GroundStation \<Rightarrow> GroundStation" where
  "send_command_with_retry max_retries running inbound cmd st =
     (let pkt = make_data CommandPkt (gs_tx_seq st) cmd;
          st0 = st\<lparr>gs_tx_seq := gs_tx_seq st + 1\<rparr>;
          (success, st1) = gs_retry_loop max_retries running inbound pkt 0 st0
      in if success then st1\<lparr>gs_commands_sent := gs_commands_sent st1 + 1\<rparr> else st1)"

text \<open>The body of the loop of \<open>GroundStation::receive_telemetry\<close> for one packet.\<close>

definition gs_receive_packet ::
  "(bytes \<Rightarrow> bool) \<Rightarrow> (bytes \<Rightarrow> bool) \<Rightarrow> Packet \<Rightarrow> GroundStation \<Rightarrow> GroundStation" where
  "gs_receive_packet stoll_ok stod_ok pkt st =
     (if \<not> verify_crc pkt then
        let st1 = st\<lparr>gs_naks_sent := gs_naks_sent st + 1\<rparr>
        in st1\<lparr>gs_link_out := gs_link_out st1 @ [make_reply NakPkt (seq pkt)]\<rparr>
      else if type pkt = TelemetryPkt then
        if seq pkt < gs_rx_seq_expected st then
          st\<lparr>gs_link_out := gs_link_out st @ [make_reply AckPkt (seq pkt)]\<rparr>
        else
          let st1 = st\<lparr>gs_rx_seq_expected := seq pkt + 1\<rparr> in
          if Telemetry_from_json_ok stoll_ok stod_ok (payload pkt) then
            let st2 = st1\<lparr>gs_telemetry_received := gs_telemetry_received st1 + 1\<rparr>;
                st3 = st2\<lparr>gs_logged := gs_logged st2 @ [(seq pkt, payload pkt)]\<rparr>
            in st3\<lparr>gs_link_out := gs_link_out st3 @ [make_reply AckPkt (seq pkt)]\<rparr>
          else
            let st2 = st1\<lparr>gs_link_out := gs_link_out st1 @ [make_reply NakPkt (seq pkt)]\<rparr>
            in st2\<lparr>gs_naks_sent := gs_naks_sent st2 + 1\<rparr>
      else st)"

text \<open>\<open>GroundStation::receive_telemetry\<close> on the packets that its loop receives.\<close>

fun receive_telemetry ::
  "(bytes \<Rightarrow> bool) \<Rightarrow> (bytes \<Rightarrow> bool) \<Rightarrow> Packet list \<Rightarrow> GroundStation \<Rightarrow> GroundStation" where
  "receive_telemetry stoll_ok stod_ok [] st = st"
| "receive_telemetry stoll_ok stod_ok (pkt # q) st =
     receive_telemetry stoll_ok stod_ok q (gs_receive_packet stoll_ok stod_ok pkt st)"

section \<open>Vocabulary of the properties\<close>

text \<open>
  Two byte strings of the same length that differ in exactly one position: the second
  is the first with a single byte changed.
\<close>

fun one_byte_changed :: "bytes \<Rightarrow> bytes \<Rightarrow> bool" where
  "one_byte_changed (x # xs) (y # ys) = (if x = y then one_byte_changed xs ys else xs = ys)"
| "one_byte_changed _ _ = False"

text \<open>
  The bytes of the fields version, type, seq and payload of a packet, in wire order.
\<close>

definition field_bytes :: "Packet \<Rightarrow> bytes" where
  "field_bytes p = be16 (version p) @ [type p] @ be32 (seq p) @ payload p"

text \<open>The front packet of a FIFO content is an ACK with sequence number \<open>s\<close>.\<close>

definition acked :: "u32 \<Rightarrow> Packet list \<Rightarrow> bool" where
  "acked s q = (case q of [] \<Rightarrow> False | pkt # rest \<Rightarrow> type pkt = AckPkt \<and> seq pkt = s)"

text \<open>The front packet of a FIFO content is a NAK with sequence number \<open>s\<close>.\<close>

definition nacked :: "u32 \<Rightarrow> Packet list \<Rightarrow> bool" where
  "nacked s q = (case q of [] \<Rightarrow> False | pkt # rest \<Rightarrow> type pkt = NakPkt \<and> seq pkt = s)"

text \<open>
  Inputs for concrete runs: a flag that stays set, a converter of parameters that
  rejects every value, and the FIFO contents seen by successive waits given as a list
  (the waits after the last one time out).
\<close>

definition always_running :: "nat \<Rightarrow> bool" where
  "always_running k = True"

definition rejects_all :: "bytes \<Rightarrow> bool" where
  "rejects_all v = False"

definition inbound_of :: "Packet list list \<Rightarrow> nat \<Rightarrow> Packet list" where
  "inbound_of qs k = (if k < length qs then qs ! k else [])"

text \<open>The number of packets handed to the link between two states of the send log.\<close>

definition sends_between :: "Packet list \<Rightarrow> Packet list \<Rightarrow> nat" where
  "sends_between before after = length after - length before"

section \<open>Properties of the CRC engine\<close>

lemma top_bit_test: "(c AND 0x8000 \<noteq> 0) = bit (c::u16) 15"
proof -
  have "(0x8000::u16) = push_bit 15 1" by simp
  then show ?thesis by (simp only: bit_iff_and_push_bit_not_eq_0)
qed

lemma crc_shift_alt: "crc_shift c = c * 2 XOR (if bit c 15 then 0x1021 else 0)"
  by (simp add: crc_shift_def top_bit_test)

lemma xor_right_cancel: "(x::u16) XOR k = y XOR k \<Longrightarrow> x = y"
proof -
  assume "x XOR k = y XOR k"
  then have "(x XOR k) XOR k = (y XOR k) XOR k" by simp
  then show "x = y" by (simp add: xor.assoc)
qed

lemma crc_shift_bit0: "bit (crc_shift c) 0 = bit c 15"
  by (simp add: crc_shift_alt bit_0 even_xor_iff)

lemma crc_shift_inj: "crc_shift a = crc_shift b \<Longrightarrow> a = b"
proof -
  assume eq: "crc_shift a = crc_shift b"
  then have top: "bit a 15 = bit b 15" by (metis crc_shift_bit0)
  with eq have "a * 2 = b * 2"
    by (auto simp add: crc_shift_alt split: if_splits dest: xor_right_cancel)
  then have sh: "2 * a = 2 * b" by (simp only: mult.commute)
  show "a = b"
  proof (rule bit_word_eqI)
    fix n assume n: "n < LENGTH(16)"
    show "bit a n = bit b n"
    proof (cases "n = 15")
      case True with top show ?thesis by simp
    next
      case False
      with n have "Suc n < 16" by simp
      moreover have "bit (2 * a) (Suc n) = bit (2 * b) (Suc n)"
        using sh by (simp only:)
      ultimately show ?thesis by (simp add: bit_double_Suc_iff)
    qed
  qed
qed

lemma top_bit_unat: "bit (c::u16) 15 = (2 ^ 15 \<le> unat c mod 2 ^ 16)"
proof -
  have lt: "unat c < 2 ^ 16" using unsigned_less[of c] by simp
  have "bit c 15 = bit (unat c) 15" by (simp add: bit_unsigned_iff)
  also have "\<dots> = odd (unat c div 2 ^ 15)" by (simp add: bit_iff_odd)
  also have "\<dots> = (2 ^ 15 \<le> unat c)"
  proof (cases "2 ^ 15 \<le> unat c")
    case True
    then have "unat c div 2 ^ 15 = 1" using lt by simp
    then show ?thesis using True by simp
  next
    case False
    then have "unat c div 2 ^ 15 = 0" by simp
    then show ?thesis using False by simp
  qed
  finally show ?thesis using lt by simp
qed

lemma unat_crc_shift: "unat (crc_shift c) = spec_shift (unat c)"
  by (simp add: crc_shift_alt spec_shift_def top_bit_unat unsigned_xor_eq unat_word_ariths
      mult.commute)

lemma unat_crc_shift_pow: "unat ((crc_shift ^^ n) c) = (spec_shift ^^ n) (unat c)"
  by (induction n) (simp_all add: unat_crc_shift)

lemma unat_high_byte: "unat (push_bit 8 (ucast (b::u8)) :: u16) = unat b * 2 ^ 8"
proof -
  have lt: "unat b < 2 ^ 8" using unsigned_less[of b] by simp
  have "unat b < 2 ^ 16" using lt by simp
  then have u: "unat (ucast b :: u16) = unat b"
    by (simp add: unsigned_ucast_eq take_bit_nat_eq_self)
  have "unat (push_bit 8 (ucast b) :: u16) = (unat (ucast b :: u16) * 2 ^ 8) mod 2 ^ 16"
    by (simp add: push_bit_eq_mult unat_word_ariths)
  also have "\<dots> = unat b * 2 ^ 8" unfolding u using lt by simp
  finally show ?thesis .
qed

lemma unat_crc_byte: "unat (crc_byte c b) = spec_byte (unat c) (unat b)"
  unfolding crc_byte_def spec_byte_def unat_crc_shift_pow
  by (simp only: unsigned_xor_eq unat_high_byte)

lemma unat_crc_loop: "unat (crc_loop c bs) = foldl spec_byte (unat c) (map unat bs)"
  by (induction bs arbitrary: c) (simp_all add: unat_crc_byte)

lemma funpow8: "(f ^^ 8) x = f (f (f (f (f (f (f (f x)))))))"
  by (simp add: eval_nat_numeral)

text \<open>
  Claim C3. \<open>crc16_ccitt\<close> computes CRC-16/CCITT-FALSE as the specification words
  it: read as a natural number, its result is the result of the specification's
  algorithm (register \<open>0xFFFF\<close>, byte into the high byte, eight conditional
  shift-and-xor steps with \<open>0x1021\<close>, everything modulo \<open>2 ^ 16\<close>, no reflection,
  no final xor) on the same bytes. The checksum of the nine ASCII bytes
  \<open>123456789\<close> is \<open>0x29B1\<close> and that of the empty input is \<open>0xFFFF\<close>.
\<close>

theorem crc16_ccitt_spec:
  "unat (crc16_ccitt bs) = spec_crc16 (map unat bs)
   \<and> crc16_ccitt (bytes_of ''123456789'') = 0x29B1
   \<and> crc16_ccitt [] = 0xFFFF"
proof (intro conjI)
  show "unat (crc16_ccitt bs) = spec_crc16 (map unat bs)"
    by (simp add: crc16_ccitt_def spec_crc16_def unat_crc_loop)
  show "crc16_ccitt (bytes_of ''123456789'') = 0x29B1"
    by (simp add: crc16_ccitt_def bytes_of_def crc_byte_def funpow8 crc_shift_def)
  show "crc16_ccitt [] = 0xFFFF"
    by (simp add: crc16_ccitt_def)
qed

section \<open>Properties of the packet codec\<close>

lemma ff_mask: "(0xFF :: 'a::len word) = mask 8"
  by (simp add: mask_eq_exp_minus_1)

lemma rd16_be16: "rd16 (be16 v @ rest) 0 = v"
  unfolding rd16_def be16_def ff_mask
  apply simp
  apply (rule bit_word_eqI)
  subgoal for n
    by (cases "n < 8"; auto simp add: bit_simps not_less)
  done

lemma rd32_be32: "rd32 (be32 v @ rest) 0 = v"
  unfolding rd32_def be32_def ff_mask
  apply simp
  apply (rule bit_word_eqI)
  subgoal for n
    by (cases "n < 8"; cases "n < 16"; cases "n < 24"; auto simp add: bit_simps not_less)
  done

lemma be16_inj: "be16 a = be16 b \<Longrightarrow> a = b"
  by (metis rd16_be16) 

lemma be32_inj: "be32 a = be32 b \<Longrightarrow> a = b"
  by (metis rd32_be32) 

lemma length_be16: "length (be16 v) = 2" by (simp add: be16_def)
lemma length_be32: "length (be32 v) = 4" by (simp add: be32_def)

lemma rd16_at: "length pre = n \<Longrightarrow> rd16 (pre @ be16 v @ rest) n = v"
  using rd16_be16[of v rest]
  by (simp add: rd16_def nth_append be16_def)

lemma rd32_at: "length pre = n \<Longrightarrow> rd32 (pre @ be32 v @ rest) n = v"
  using rd32_be32[of v rest]
  by (simp add: rd32_def nth_append be32_def)


lemma length_crc_data: "length (crc_data p) = 11 + length (payload p)"
  by (simp add: crc_data_def length_be16 length_be32)

lemma to_bytes_crc_data: "to_bytes p = crc_data p @ be16 (crc16 p)"
  by (simp add: to_bytes_def crc_data_def)

lemma length_to_bytes: "length (to_bytes p) = 13 + length (payload p)"
  by (simp add: to_bytes_def length_be16 length_be32)

lemma rd_version: "rd16 (to_bytes p @ extra) 0 = version p"
  by (simp add: to_bytes_def rd16_be16)

lemma rd_type: "(to_bytes p @ extra) ! 2 = type p"
  by (simp add: to_bytes_def nth_append length_be16)

lemma rd_seq: "rd32 (to_bytes p @ extra) 3 = seq p"
proof -
  have "rd32 ((be16 (version p) @ [type p]) @ be32 (seq p) @
          (be32 (psize p) @ payload p @ be16 (crc16 p) @ extra)) 3 = seq p"
    by (rule rd32_at) (simp add: length_be16)
  then show ?thesis by (simp add: to_bytes_def)
qed

lemma rd_psize: "rd32 (to_bytes p @ extra) 7 = psize p"
proof -
  have "rd32 ((be16 (version p) @ [type p] @ be32 (seq p)) @ be32 (psize p) @
          (payload p @ be16 (crc16 p) @ extra)) 7 = psize p"
    by (rule rd32_at) (simp add: length_be16 length_be32)
  then show ?thesis by (simp add: to_bytes_def)
qed

lemma rd_payload:
  "take (length (payload p)) (drop 11 (to_bytes p @ extra)) = payload p"
  by (simp add: to_bytes_def length_be16 length_be32)

lemma rd_crc: "rd16 (to_bytes p @ extra) (11 + length (payload p)) = crc16 p"
proof -
  have "rd16 ((crc_data p) @ be16 (crc16 p) @ extra) (11 + length (payload p)) = crc16 p"
    by (rule rd16_at) (simp add: length_crc_data)
  then show ?thesis by (simp add: to_bytes_crc_data)
qed

lemma unat_psize: "length (payload p) < 2 ^ 32 \<Longrightarrow> unat (psize p) = length (payload p)"
  by (simp add: psize_def unat_of_nat)

lemma from_bytes_to_bytes_extra:
  assumes "length (payload p) < 2 ^ 32"
  shows "from_bytes (to_bytes p @ extra) =
           Inr \<lparr> version = version p, type = type p, seq = seq p, payload_size = psize p,
                 payload = payload p, crc16 = crc16 p \<rparr>"
  unfolding from_bytes_def Let_def rd_psize unat_psize[OF assms] rd_version rd_type rd_seq
    rd_crc rd_payload
  by (simp add: length_to_bytes)

lemma from_bytes_to_bytes:
  assumes "length (payload (p::Packet)) < 2 ^ 32"
  shows "from_bytes (to_bytes p) = Inr (p\<lparr>payload_size := psize p\<rparr>)"
  using from_bytes_to_bytes_extra[OF assms, of "[]"] by simp

lemma crc_data_payload_size: "crc_data (p\<lparr>payload_size := ps\<rparr>) = crc_data p"
  by (simp add: crc_data_def psize_def)

lemma verify_compute: "verify_crc (compute_crc p)"
  by (simp add: verify_crc_def compute_crc_def crc_data_def psize_def)

text \<open>
  Claim C1 as stated fails: \<open>to_bytes\<close> writes the length of the payload, not the
  field \<open>payload_size\<close>, so a packet whose field disagrees with its payload (here the
  field 5 with an empty payload) decodes to a packet with another \<open>payload_size\<close>.
\<close>

theorem roundtrip_payload_size_counterexample:
  "from_bytes (to_bytes \<lparr>version = 1, type = TelemetryPkt, seq = 0, payload_size = 5,
                          payload = [], crc16 = 0\<rparr>)
     = Inr \<lparr>version = 1, type = TelemetryPkt, seq = 0, payload_size = 0, payload = [],
             crc16 = 0\<rparr>
   \<and> from_bytes (to_bytes \<lparr>version = 1, type = TelemetryPkt, seq = 0, payload_size = 5,
                          payload = [], crc16 = 0\<rparr>)
     \<noteq> Inr \<lparr>version = 1, type = TelemetryPkt, seq = 0, payload_size = 5, payload = [],
             crc16 = 0\<rparr>"
  by (simp add: from_bytes_to_bytes psize_def)

text \<open>
  Claim C1, amended. For every packet whose payload length fits in 32 bits and whose
  field \<open>payload_size\<close> equals its payload length, decoding the encoding succeeds and
  returns the packet itself, equal in version, type, seq, payload_size, payload and
  crc16.
\<close>

theorem from_bytes_to_bytes_roundtrip:
  "length (payload p) < 2 ^ 32 \<Longrightarrow> payload_size p = of_nat (length (payload p))
     \<Longrightarrow> from_bytes (to_bytes p) = Inr (p::Packet)"
  by (simp add: from_bytes_to_bytes psize_def)

theorem from_bytes_to_bytes_roundtrip_witness:
  "from_bytes (to_bytes (make_data TelemetryPkt 12345 (bytes_of ''test payload data'')))
     = Inr (make_data TelemetryPkt 12345 (bytes_of ''test payload data''))"
  using from_bytes_to_bytes_roundtrip
          [of "make_data TelemetryPkt 12345 (bytes_of ''test payload data'')"]
  by (simp add: make_data_def compute_crc_def bytes_of_def)

text \<open>
  Claim C9. Two packets that differ only in the field \<open>payload_size\<close> have the same
  \<open>to_bytes\<close>, the same checksum from \<open>compute_crc\<close> (which leaves the field as it
  is) and the same \<open>verify_crc\<close>: the three operations take the size from the
  payload length. So a packet whose field disagrees with its payload still passes the
  verification after \<open>compute_crc\<close>, and its frame decodes, when the payload length
  fits in 32 bits, to the packet with the field set to the payload length.
\<close>

theorem payload_size_field_ignored:
  "to_bytes (p\<lparr>payload_size := ps\<rparr>) = to_bytes p
   \<and> compute_crc (p\<lparr>payload_size := ps\<rparr>) = (compute_crc p)\<lparr>payload_size := ps\<rparr>
   \<and> verify_crc (p\<lparr>payload_size := ps\<rparr>) = verify_crc p
   \<and> verify_crc (compute_crc (p\<lparr>payload_size := ps\<rparr>))
   \<and> (length (payload p) < 2 ^ 32 \<longrightarrow>
        from_bytes (to_bytes (compute_crc (p\<lparr>payload_size := ps\<rparr>)))
          = Inr ((compute_crc p)\<lparr>payload_size := of_nat (length (payload p))\<rparr>))"
proof (intro conjI impI)
  show "to_bytes (p\<lparr>payload_size := ps\<rparr>) = to_bytes p"
    by (simp add: to_bytes_def psize_def)
  show "compute_crc (p\<lparr>payload_size := ps\<rparr>) = (compute_crc p)\<lparr>payload_size := ps\<rparr>"
    by (simp add: compute_crc_def crc_data_payload_size)
  show "verify_crc (p\<lparr>payload_size := ps\<rparr>) = verify_crc p"
    by (simp add: verify_crc_def crc_data_payload_size)
  show "verify_crc (compute_crc (p\<lparr>payload_size := ps\<rparr>))"
    by (rule verify_compute)
next
  assume len: "length (payload p) < 2 ^ 32"
  have "length (payload (compute_crc (p\<lparr>payload_size := ps\<rparr>))) < 2 ^ 32"
    using len by (simp add: compute_crc_def)
  from from_bytes_to_bytes[OF this]
  show "from_bytes (to_bytes (compute_crc (p\<lparr>payload_size := ps\<rparr>)))
          = Inr ((compute_crc p)\<lparr>payload_size := of_nat (length (payload p))\<rparr>)"
    by (simp add: compute_crc_def crc_data_payload_size psize_def)
qed

theorem payload_size_field_ignored_witness:
  "length (bytes_of ''abc'') < 2 ^ 32
   \<and> from_bytes (to_bytes (compute_crc \<lparr>version = 1, type = CommandPkt, seq = 9,
        payload_size = 99, payload = bytes_of ''abc'', crc16 = 0\<rparr>))
     = Inr (compute_crc \<lparr>version = 1, type = CommandPkt, seq = 9,
        payload_size = 3, payload = bytes_of ''abc'', crc16 = 0\<rparr>)"
  using payload_size_field_ignored
          [where p = "\<lparr>version = 1, type = CommandPkt, seq = 9, payload_size = 3,
                payload = bytes_of ''abc'', crc16 = 0\<rparr>" and ps = 99]
  by (simp add: bytes_of_def compute_crc_def crc_data_def psize_def)

lemma rd16_append: "pos + 1 < length bs \<Longrightarrow> rd16 (bs @ extra) pos = rd16 bs pos"
  by (simp add: rd16_def nth_append)

lemma rd32_append: "pos + 3 < length bs \<Longrightarrow> rd32 (bs @ extra) pos = rd32 bs pos"
  by (simp add: rd32_def nth_append)

lemma from_bytes_append:
  assumes "\<not> isl (from_bytes bs)"
  shows "from_bytes (bs @ extra) = from_bytes bs"
proof -
  from assms have len: "13 \<le> length bs" and fit: "11 + unat (rd32 bs 7) + 2 \<le> length bs"
    by (auto simp add: from_bytes_def Let_def split: if_splits)
  have psz: "rd32 (bs @ extra) 7 = rd32 bs 7" using len by (simp add: rd32_append)
  have v: "rd16 (bs @ extra) 0 = rd16 bs 0" using len by (simp add: rd16_append)
  have s: "rd32 (bs @ extra) 3 = rd32 bs 3" using len by (simp add: rd32_append)
  have c: "rd16 (bs @ extra) (11 + unat (rd32 bs 7)) = rd16 bs (11 + unat (rd32 bs 7))"
    using fit by (simp add: rd16_append)
  have t: "(bs @ extra) ! 2 = bs ! 2" using len by (simp add: nth_append)
  have pl: "take (unat (rd32 bs 7)) (drop 11 (bs @ extra)) = take (unat (rd32 bs 7)) (drop 11 bs)"
    using fit by simp
  show ?thesis
    unfolding from_bytes_def Let_def psz v s c t pl using len fit by simp
qed

text \<open>
  Claim C4 as stated fails: \<open>from_bytes\<close> has no test for trailing bytes. The frame
  of an ACK followed by one more byte is longer than \<open>13 + payload_size\<close> and decodes
  to the ACK.
\<close>

theorem from_bytes_trailing_counterexample:
  "from_bytes (to_bytes (make_reply AckPkt 7) @ [0xAA]) = Inr (make_reply AckPkt 7)
   \<and> 13 + unat (payload_size (make_reply AckPkt 7))
        < length (to_bytes (make_reply AckPkt 7) @ [0xAA])"
proof -
  have "length (payload (make_reply AckPkt 7)) < 2 ^ 32"
    by (simp add: make_reply_def compute_crc_def)
  from from_bytes_to_bytes_extra[OF this, of "[0xAA]"]
  show ?thesis
    by (simp add: make_reply_def compute_crc_def psize_def length_to_bytes)
qed

text \<open>
  Claim C4, amended. \<open>from_bytes\<close> fails exactly when the input is shorter than 13
  bytes, or has at least 13 bytes and is shorter than \<open>11 + payload_size + 2\<close>, where
  \<open>payload_size\<close> is read from the bytes 7 to 10. Excess trailing bytes are not an
  error: bytes appended to an input that decodes do not change the result.
\<close>

theorem from_bytes_fails_iff:
  "(from_bytes b = Inl PacketTooShort \<longleftrightarrow> length b < 13)
   \<and> (from_bytes b = Inl PayloadSizeMismatch \<longleftrightarrow>
        13 \<le> length b \<and> length b < 11 + unat (rd32 b 7) + 2)
   \<and> (isl (from_bytes b) \<longleftrightarrow> length b < 13 \<or> length b < 11 + unat (rd32 b 7) + 2)
   \<and> (\<not> isl (from_bytes b) \<longrightarrow> from_bytes (b @ extra) = from_bytes b)"
proof (intro conjI impI)
  show "from_bytes b = Inl PacketTooShort \<longleftrightarrow> length b < 13"
    by (simp add: from_bytes_def Let_def)
  show "from_bytes b = Inl PayloadSizeMismatch \<longleftrightarrow>
          13 \<le> length b \<and> length b < 11 + unat (rd32 b 7) + 2"
    by (auto simp add: from_bytes_def Let_def)
  show "isl (from_bytes b) \<longleftrightarrow> length b < 13 \<or> length b < 11 + unat (rd32 b 7) + 2"
    by (auto simp add: from_bytes_def Let_def)
next
  assume "\<not> isl (from_bytes b)"
  then show "from_bytes (b @ extra) = from_bytes b" by (rule from_bytes_append)
qed

theorem from_bytes_fails_iff_witness:
  "\<not> isl (from_bytes (to_bytes (make_reply NakPkt 3)))
   \<and> from_bytes (to_bytes (make_reply NakPkt 3) @ [1, 2, 3])
       = from_bytes (to_bytes (make_reply NakPkt 3))
   \<and> from_bytes [0, 1, 2] = Inl PacketTooShort
   \<and> from_bytes [0, 1, 4, 0, 0, 0, 0, 0, 0, 0, 1, 0, 0] = Inl PayloadSizeMismatch"
proof -
  have "length (payload (make_reply NakPkt 3)) < 2 ^ 32"
    by (simp add: make_reply_def compute_crc_def)
  from from_bytes_to_bytes[OF this]
  have ok: "\<not> isl (from_bytes (to_bytes (make_reply NakPkt 3)))" by simp
  have a: "from_bytes [0, 1, 2] = Inl PacketTooShort"
    using from_bytes_fails_iff[of "[0, 1, 2]"] by simp
  have b: "from_bytes [0, 1, 4, 0, 0, 0, 0, 0, 0, 0, 1, 0, 0] = Inl PayloadSizeMismatch"
    using from_bytes_fails_iff[of "[0, 1, 4, 0, 0, 0, 0, 0, 0, 0, 1, 0, 0]"]
    by (simp add: rd32_def)
  show ?thesis
    using ok a b from_bytes_fails_iff[of "to_bytes (make_reply NakPkt 3)" "[1, 2, 3]"]
    by simp
qed

lemma crc_shift8_inj: "(crc_shift ^^ 8) a = (crc_shift ^^ 8) b \<Longrightarrow> a = b"
  unfolding funpow8 by (blast dest: crc_shift_inj)

lemma xor_left_cancel: "(k::u16) XOR x = k XOR y \<Longrightarrow> x = y"
  by (metis xor_right_cancel xor.commute)

lemma crc_byte_inj_crc: "crc_byte a x = crc_byte b x \<Longrightarrow> a = b"
  unfolding crc_byte_def by (blast dest: crc_shift8_inj xor_right_cancel)

lemma high_byte_inj:
  "(push_bit 8 (ucast (x::u8)) :: u16) = push_bit 8 (ucast y) \<Longrightarrow> x = y"
proof -
  assume "(push_bit 8 (ucast x) :: u16) = push_bit 8 (ucast y)"
  then have "unat (push_bit 8 (ucast x) :: u16) = unat (push_bit 8 (ucast y) :: u16)"
    by (simp only:)
  then have "unat x = unat y" by (simp only: unat_high_byte) simp
  then show "x = y" by (simp add: word_unat_eq_iff)
qed

lemma crc_byte_inj_byte: "crc_byte c x = crc_byte c y \<Longrightarrow> x = y"
  unfolding crc_byte_def by (blast dest: crc_shift8_inj xor_left_cancel high_byte_inj)

lemma crc_loop_inj: "crc_loop a xs = crc_loop b xs \<Longrightarrow> a = b"
  by (induction xs arbitrary: a b) (auto dest: crc_byte_inj_crc)

lemma one_byte_changed_length: "one_byte_changed xs ys \<Longrightarrow> length xs = length ys"
  by (induction xs ys rule: one_byte_changed.induct) (auto split: if_splits)

lemma crc_loop_one_byte_changed:
  "one_byte_changed xs ys \<Longrightarrow> crc_loop c xs \<noteq> crc_loop c ys"
proof (induction xs ys arbitrary: c rule: one_byte_changed.induct)
  case (1 x xs y ys)
  show ?case
  proof (cases "x = y")
    case True
    with 1 show ?thesis by simp
  next
    case False
    with 1 have "xs = ys" by simp
    moreover have "crc_byte c x \<noteq> crc_byte c y" using False by (blast dest: crc_byte_inj_byte)
    ultimately show ?thesis by (auto dest: crc_loop_inj)
  qed
qed simp_all

lemma one_byte_changed_prefix: "one_byte_changed (z @ xs) (z @ ys) = one_byte_changed xs ys"
  by (induction z) simp_all

lemma one_byte_changed_insert:
  "length h1 = length h2 \<Longrightarrow> one_byte_changed (h1 @ t1) (h2 @ t2)
     \<Longrightarrow> one_byte_changed (h1 @ z @ t1) (h2 @ z @ t2)"
proof (induction h1 h2 rule: list_induct2)
  case Nil
  then show ?case by (simp add: one_byte_changed_prefix)
next
  case (Cons x xs y ys)
  then show ?case by (auto split: if_splits)
qed

lemma crc_data_one_byte_changed:
  assumes "one_byte_changed (field_bytes p) (field_bytes q)"
  shows "one_byte_changed (crc_data p) (crc_data q)"
proof -
  from one_byte_changed_length[OF assms] have "length (payload p) = length (payload q)"
    by (simp add: field_bytes_def length_be16 length_be32)
  then have ps: "psize q = psize p" by (simp add: psize_def)
  have "one_byte_changed ((be16 (version p) @ [type p] @ be32 (seq p)) @ payload p)
          ((be16 (version q) @ [type q] @ be32 (seq q)) @ payload q)"
    using assms by (simp add: field_bytes_def)
  then have "one_byte_changed
          ((be16 (version p) @ [type p] @ be32 (seq p)) @ be32 (psize p) @ payload p)
          ((be16 (version q) @ [type q] @ be32 (seq q)) @ be32 (psize p) @ payload q)"
    by (rule one_byte_changed_insert[rotated]) (simp add: length_be16 length_be32)
  then show ?thesis by (simp add: crc_data_def ps)
qed

lemma verify_crc_payload_size: "verify_crc (p\<lparr>payload_size := ps\<rparr>) = verify_crc p"
  by (simp add: verify_crc_def crc_data_payload_size)

text \<open>
  Claim C2 as stated fails for the field \<open>payload_size\<close>: \<open>compute_crc\<close> and
  \<open>verify_crc\<close> take the size bytes from the payload length, so a change of the field
  after \<open>compute_crc\<close> leaves \<open>verify_crc\<close> true.
\<close>

theorem crc_payload_size_counterexample:
  "payload_size ((make_data CommandPkt 100 (bytes_of ''command data''))\<lparr>payload_size := 99\<rparr>)
     \<noteq> payload_size (make_data CommandPkt 100 (bytes_of ''command data''))
   \<and> verify_crc ((make_data CommandPkt 100 (bytes_of ''command data''))\<lparr>payload_size := 99\<rparr>)"
proof
  show "payload_size ((make_data CommandPkt 100 (bytes_of ''command data''))\<lparr>payload_size := 99\<rparr>)
          \<noteq> payload_size (make_data CommandPkt 100 (bytes_of ''command data''))"
    by (simp add: make_data_def compute_crc_def bytes_of_def)
  show "verify_crc ((make_data CommandPkt 100 (bytes_of ''command data''))\<lparr>payload_size := 99\<rparr>)"
    by (simp add: make_data_def verify_crc_payload_size verify_compute)
qed

text \<open>
  Claim C2, amended. After \<open>compute_crc\<close>, \<open>verify_crc\<close> returns true. A packet
  \<open>q\<close> that carries the checksum computed for \<open>p\<close> and differs from \<open>p\<close> in a
  single byte of version, type, seq or payload fails the verification, and so does the
  packet with any other value in the checksum field. A change of the field
  \<open>payload_size\<close> is not detected: the verification still succeeds.
\<close>

theorem crc_detects_single_byte_change:
  "verify_crc (compute_crc p)
   \<and> (crc16 q = crc16 (compute_crc p) \<and> one_byte_changed (field_bytes p) (field_bytes q)
        \<longrightarrow> \<not> verify_crc q)
   \<and> (c \<noteq> crc16 (compute_crc p) \<longrightarrow> \<not> verify_crc ((compute_crc p)\<lparr>crc16 := c\<rparr>))
   \<and> verify_crc ((compute_crc p)\<lparr>payload_size := ps\<rparr>)"
proof (intro conjI impI)
  show "verify_crc (compute_crc p)" by (rule verify_compute)
  show "verify_crc ((compute_crc p)\<lparr>payload_size := ps\<rparr>)"
    by (simp add: verify_crc_payload_size verify_compute)
next
  assume "c \<noteq> crc16 (compute_crc p)"
  then show "\<not> verify_crc ((compute_crc p)\<lparr>crc16 := c\<rparr>)"
    by (auto simp add: verify_crc_def compute_crc_def crc_data_def psize_def)
next
  assume a: "crc16 q = crc16 (compute_crc p) \<and> one_byte_changed (field_bytes p) (field_bytes q)"
  then have "one_byte_changed (crc_data p) (crc_data q)" by (simp add: crc_data_one_byte_changed)
  then have "crc16_ccitt (crc_data p) \<noteq> crc16_ccitt (crc_data q)"
    unfolding crc16_ccitt_def by (rule crc_loop_one_byte_changed)
  with a show "\<not> verify_crc q" by (simp add: verify_crc_def compute_crc_def)
qed


theorem crc_detects_single_byte_change_witness:
  "verify_crc (make_data CommandPkt 100 (bytes_of ''command data''))
   \<and> \<not> verify_crc ((make_data CommandPkt 100 (bytes_of ''command data''))
          \<lparr>payload := bytes_of ''Xommand data''\<rparr>)
   \<and> \<not> verify_crc ((make_data CommandPkt 100 (bytes_of ''command data''))\<lparr>seq := 101\<rparr>)
   \<and> \<not> verify_crc ((make_data CommandPkt 100 (bytes_of ''command data''))\<lparr>crc16 := 0\<rparr>)"
proof -
  let ?p = "\<lparr>version = 1, type = CommandPkt, seq = 100, payload_size = 12,
             payload = bytes_of ''command data'', crc16 = 0\<rparr>"
  have m: "make_data CommandPkt 100 (bytes_of ''command data'') = compute_crc ?p"
    by (simp add: make_data_def bytes_of_def)
  have crc: "crc16 (compute_crc ?p) \<noteq> 0"
    by (simp add: compute_crc_def crc_data_def psize_def be16_def be32_def bytes_of_def
        CommandPkt_def crc16_ccitt_def crc_byte_def funpow8 crc_shift_def)
  have f1: "one_byte_changed (field_bytes ?p)
              (field_bytes ((compute_crc ?p)\<lparr>payload := bytes_of ''Xommand data''\<rparr>))"
    by (simp add: field_bytes_def compute_crc_def be16_def be32_def bytes_of_def)
  have f2: "one_byte_changed (field_bytes ?p) (field_bytes ((compute_crc ?p)\<lparr>seq := 101\<rparr>))"
    by (simp add: field_bytes_def compute_crc_def be16_def be32_def bytes_of_def)
  show ?thesis
    unfolding m
    using crc f1 f2
      crc_detects_single_byte_change[where p = ?p and c = 0
        and q = "(compute_crc ?p)\<lparr>payload := bytes_of ''Xommand data''\<rparr>"]
      crc_detects_single_byte_change[where p = ?p and c = 0
        and q = "(compute_crc ?p)\<lparr>seq := 101\<rparr>"]
    by simp
qed


section \<open>Properties of the channel\<close>

lemma send_step:
  "packets_sent (apply_impairments_and_send ld nd pkt d l) = packets_sent l + 1
   \<and> ((packets_dropped (apply_impairments_and_send ld nd pkt d l) = packets_dropped l + 1
        \<and> enqueued (apply_impairments_and_send ld nd pkt d l) = enqueued l
        \<and> sat_to_gs (apply_impairments_and_send ld nd pkt d l) = sat_to_gs l
        \<and> gs_to_sat (apply_impairments_and_send ld nd pkt d l) = gs_to_sat l)
      \<or> (packets_dropped (apply_impairments_and_send ld nd pkt d l) = packets_dropped l
        \<and> enqueued (apply_impairments_and_send ld nd pkt d l) = enqueued l + 1
        \<and> queue_of d (apply_impairments_and_send ld nd pkt d l) = queue_of d l @ [pkt]))"
  by (cases d)
     (simp_all add: apply_impairments_and_send_def Let_def push_def enqueued_def queue_of_def
        split: prod.splits)

lemma do_send_step:
  "packets_sent (do_send ld nd c l) = packets_sent l + 1
   \<and> ((packets_dropped (do_send ld nd c l) = packets_dropped l + 1
        \<and> enqueued (do_send ld nd c l) = enqueued l)
      \<or> (packets_dropped (do_send ld nd c l) = packets_dropped l
        \<and> enqueued (do_send ld nd c l) = enqueued l + 1))"
proof (cases c)
  case (SendSatToGs pkt)
  then show ?thesis using send_step[of ld nd pkt SatToGs l] by (auto simp add: send_sat_to_gs_def)
next
  case (SendGsToSat pkt)
  then show ?thesis using send_step[of ld nd pkt GsToSat l] by (auto simp add: send_gs_to_sat_def)
qed

lemma run_sends_sent:
  "packets_sent (run_sends ld nd cs l) = packets_sent l + of_nat (length cs)"
  by (induction cs arbitrary: l) (simp_all add: do_send_step)

lemma run_sends_enqueued:
  "enqueued l \<le> enqueued (run_sends ld nd cs l)
   \<and> enqueued (run_sends ld nd cs l) \<le> enqueued l + length cs
   \<and> packets_dropped (run_sends ld nd cs l)
       = packets_dropped l + of_nat (enqueued l + length cs - enqueued (run_sends ld nd cs l))"
proof (induction cs arbitrary: l)
  case Nil
  then show ?case by simp
next
  case (Cons c cs)
  from do_send_step[of ld nd c l] Cons.IH[of "do_send ld nd c l"]
  show ?case by (auto simp add: Suc_diff_le)
qed

lemma Link_new_counters:
  "packets_sent (Link_new seed_rng cfg) = 0 \<and> packets_dropped (Link_new seed_rng cfg) = 0
   \<and> enqueued (Link_new seed_rng cfg) = 0"
  by (simp add: Link_new_def enqueued_def)

lemma run_sends_consistent:
  "packets_sent (run_sends ld nd cs (Link_new seed_rng cfg))
     = of_nat (enqueued (run_sends ld nd cs (Link_new seed_rng cfg)))
       + packets_dropped (run_sends ld nd cs (Link_new seed_rng cfg))"
proof -
  let ?l = "Link_new seed_rng cfg"
  let ?l' = "run_sends ld nd cs ?l"
  from run_sends_enqueued[of ?l ld nd cs]
  have le: "enqueued ?l' \<le> length cs"
    and dr: "packets_dropped ?l' = of_nat (length cs - enqueued ?l')"
    by (simp_all add: Link_new_counters)
  have "packets_sent ?l' = of_nat (length cs)"
    by (simp add: run_sends_sent Link_new_counters)
  also have "length cs = enqueued ?l' + (length cs - enqueued ?l')" using le by simp
  also have "(of_nat \<dots> :: u64) = of_nat (enqueued ?l') + packets_dropped ?l'"
    by (simp only: of_nat_add dr)
  finally show ?thesis .
qed

text \<open>
  Claim C8. Every send call increments the counter of sent packets by one, whether the
  packet is lost or not, and either increments the counter of dropped packets and
  leaves both FIFOs as they are, or leaves that counter and appends the packet to the
  FIFO of its direction: never both, never neither. So a finite sequence of send calls
  adds its length to the sent counter, and what it adds to the dropped counter and to
  the FIFOs sums to its length; on a new link the sent counter equals the number of
  enqueued packets plus the dropped counter.
\<close>

theorem link_counter_consistency:
  "packets_sent (run_sends ld nd cs l) = packets_sent l + of_nat (length cs)
   \<and> enqueued (run_sends ld nd cs l) \<le> enqueued l + length cs
   \<and> packets_dropped (run_sends ld nd cs l)
       = packets_dropped l + of_nat (enqueued l + length cs - enqueued (run_sends ld nd cs l))
   \<and> packets_sent (run_sends ld nd cs (Link_new seed_rng cfg))
       = of_nat (enqueued (run_sends ld nd cs (Link_new seed_rng cfg)))
         + packets_dropped (run_sends ld nd cs (Link_new seed_rng cfg))
   \<and> packets_sent (apply_impairments_and_send ld nd pkt d l) = packets_sent l + 1
   \<and> ((packets_dropped (apply_impairments_and_send ld nd pkt d l) = packets_dropped l + 1
        \<and> enqueued (apply_impairments_and_send ld nd pkt d l) = enqueued l
        \<and> sat_to_gs (apply_impairments_and_send ld nd pkt d l) = sat_to_gs l
        \<and> gs_to_sat (apply_impairments_and_send ld nd pkt d l) = gs_to_sat l)
      \<or> (packets_dropped (apply_impairments_and_send ld nd pkt d l) = packets_dropped l
        \<and> enqueued (apply_impairments_and_send ld nd pkt d l) = enqueued l + 1
        \<and> queue_of d (apply_impairments_and_send ld nd pkt d l) = queue_of d l @ [pkt]))"
  using run_sends_sent[of ld nd cs l] run_sends_enqueued[of l ld nd cs]
    run_sends_consistent[of ld nd cs seed_rng cfg] send_step[of ld nd pkt d l]
  by (simp only:)

section \<open>Properties of the endpoints\<close>

lemma sat_wait_for_ack_eq:
  "sat_wait_for_ack s q st =
     (acked s q, drop 1 q,
      if nacked s q then st\<lparr>sat_naks_received := sat_naks_received st + 1\<rparr> else st)"
  by (cases q) (auto simp add: sat_wait_for_ack_def try_pop_def acked_def nacked_def AckPkt_def NakPkt_def)

lemma gs_wait_for_ack_eq: "gs_wait_for_ack s q st = (acked s q, drop 1 q, st)"
  by (cases q) (auto simp add: gs_wait_for_ack_def try_pop_def acked_def)

text \<open>
  Claim C10. A call of \<open>wait_for_ack\<close> removes at most the front packet of the
  inbound FIFO. It returns true exactly when that packet is an ACK with the awaited
  sequence number; any other packet is discarded and the answer is false, and the
  answer does not depend on the packets behind the front one. At the satellite a NAK
  with the awaited number also counts in \<open>naks_received\<close>.
\<close>

theorem wait_for_ack_consumes_one:
  "sat_wait_for_ack s q st =
     (acked s q, drop 1 q,
      if nacked s q then st\<lparr>sat_naks_received := sat_naks_received st + 1\<rparr> else st)
   \<and> gs_wait_for_ack s q gst = (acked s q, drop 1 q, gst)
   \<and> acked s (pkt # rest) = (type pkt = AckPkt \<and> seq pkt = s)
   \<and> acked s [] = False
   \<and> fst (sat_wait_for_ack s (pkt # rest) st) = fst (sat_wait_for_ack s [pkt] st)
   \<and> fst (gs_wait_for_ack s (pkt # rest) gst) = fst (gs_wait_for_ack s [pkt] gst)"
  by (simp add: sat_wait_for_ack_eq gs_wait_for_ack_eq acked_def)

lemma verify_crc_make_reply: "verify_crc (make_reply t s)"
  by (simp add: make_reply_def verify_compute)

lemma verify_crc_make_data: "verify_crc (make_data t s pl)"
  by (simp add: make_data_def verify_compute)

lemma make_reply_fields:
  "version (make_reply t s) = 1 \<and> type (make_reply t s) = t \<and> seq (make_reply t s) = s
   \<and> payload_size (make_reply t s) = 0 \<and> payload (make_reply t s) = []"
  by (simp add: make_reply_def compute_crc_def)

lemma make_data_fields:
  "version (make_data t s pl) = 1 \<and> type (make_data t s pl) = t \<and> seq (make_data t s pl) = s
   \<and> payload_size (make_data t s pl) = of_nat (length pl) \<and> payload (make_data t s pl) = pl"
  by (simp add: make_data_def compute_crc_def)

text \<open>
  Claim C7, amended. For every received packet whose \<open>verify_crc\<close> fails, the
  endpoint hands to the link, on the reverse direction, a NAK with the sequence number
  of the packet, version 1, an empty payload and a checksum that verifies; it drops the
  packet (nothing is delivered) and leaves \<open>rx_seq_expected\<close> as it is. The ground
  station increments \<open>naks_sent\<close>. The satellite has no counter of NAKs sent and
  changes no counter.
\<close>

theorem bad_crc_nak:
  "\<not> verify_crc pkt \<Longrightarrow>
     gs_receive_packet stoll_ok stod_ok pkt gst
       = gst\<lparr>gs_naks_sent := gs_naks_sent gst + 1,
              gs_link_out := gs_link_out gst @ [make_reply NakPkt (seq pkt)]\<rparr>
     \<and> gs_rx_seq_expected (gs_receive_packet stoll_ok stod_ok pkt gst) = gs_rx_seq_expected gst
     \<and> gs_logged (gs_receive_packet stoll_ok stod_ok pkt gst) = gs_logged gst
     \<and> sat_process_packet adjust_ok burn_ok pkt st
       = st\<lparr>sat_link_out := sat_link_out st @ [make_reply NakPkt (seq pkt)]\<rparr>
     \<and> sat_rx_seq_expected (sat_process_packet adjust_ok burn_ok pkt st) = sat_rx_seq_expected st
     \<and> sat_executed (sat_process_packet adjust_ok burn_ok pkt st) = sat_executed st
     \<and> type (make_reply NakPkt (seq pkt)) = NakPkt
     \<and> seq (make_reply NakPkt (seq pkt)) = seq pkt
     \<and> payload (make_reply NakPkt (seq pkt)) = []
     \<and> payload_size (make_reply NakPkt (seq pkt)) = 0
     \<and> verify_crc (make_reply NakPkt (seq pkt))"
  by (simp add: gs_receive_packet_def sat_process_packet_def Let_def make_reply_fields
      verify_crc_make_reply)

lemma bad_packet:
  "\<not> verify_crc ((make_data CommandPkt 5 (bytes_of ''REBOOT''))\<lparr>payload := bytes_of ''REBOOX''\<rparr>)"
  by (simp add: make_data_def verify_crc_def compute_crc_def crc_data_def psize_def be16_def be32_def
      bytes_of_def CommandPkt_def crc16_ccitt_def crc_byte_def funpow8 crc_shift_def)

text \<open>
  Claim C7 as stated fails at the satellite: the class has no counter of NAKs sent.
  After a packet with a bad checksum the satellite has handed the NAK to the link and
  each of its four counters is still 0.
\<close>

theorem sat_no_nak_counter_counterexample:
  "\<not> verify_crc ((make_data CommandPkt 5 (bytes_of ''REBOOT''))\<lparr>payload := bytes_of ''REBOOX''\<rparr>)
   \<and> sat_process_packet rejects_all rejects_all
        ((make_data CommandPkt 5 (bytes_of ''REBOOT''))\<lparr>payload := bytes_of ''REBOOX''\<rparr>)
        Satellite_new
      = \<lparr> sat_tx_seq = 0, sat_rx_seq_expected = 0, sat_safe_mode = False,
          sat_telemetry_sent = 0, sat_commands_received = 0, sat_retries = 0,
          sat_naks_received = 0, sat_link_out = [make_reply NakPkt 5], sat_executed = [] \<rparr>"
  using bad_packet
  by (simp add: sat_process_packet_def Satellite_new_def make_data_fields)

theorem bad_crc_nak_witness:
  "\<not> verify_crc ((make_data TelemetryPkt 5 (bytes_of ''temp=1''))\<lparr>seq := 6\<rparr>)
   \<and> gs_receive_packet rejects_all rejects_all
        ((make_data TelemetryPkt 5 (bytes_of ''temp=1''))\<lparr>seq := 6\<rparr>) GroundStation_new
      = \<lparr> gs_tx_seq = 0, gs_rx_seq_expected = 0, gs_telemetry_received = 0,
          gs_commands_sent = 0, gs_retries = 0, gs_naks_sent = 1,
          gs_link_out = [make_reply NakPkt 6], gs_logged = [] \<rparr>
   \<and> sat_link_out (sat_process_packet rejects_all rejects_all
        ((make_data TelemetryPkt 5 (bytes_of ''temp=1''))\<lparr>seq := 6\<rparr>) Satellite_new)
      = [make_reply NakPkt 6]"
proof -
  have bad: "\<not> verify_crc ((make_data TelemetryPkt 5 (bytes_of ''temp=1''))\<lparr>seq := 6\<rparr>)"
    by (simp add: make_data_def verify_crc_def compute_crc_def crc_data_def psize_def be16_def
        be32_def bytes_of_def TelemetryPkt_def crc16_ccitt_def crc_byte_def funpow8 crc_shift_def)
  from bad_crc_nak[OF bad, of rejects_all rejects_all GroundStation_new rejects_all rejects_all Satellite_new]
  show ?thesis using bad
    by (simp add: GroundStation_new_def Satellite_new_def make_data_fields)
qed


lemma deser_reboot: "Command_deserialize a b (bytes_of ''REBOOT'') = Some Reboot"
  by (simp add: Command_deserialize_def bytes_of_def bar_def Let_def)

lemma deser_bogus: "Command_deserialize a b (bytes_of ''BOGUS'') = None"
  by (simp add: Command_deserialize_def bytes_of_def bar_def Let_def)

lemma json_hello: "Telemetry_from_json_ok a b (bytes_of ''hello'')"
  by (simp add: Telemetry_from_json_ok_def bytes_of_def bar_def token_ok_def equals_sign_def)

lemma json_bad: "\<not> Telemetry_from_json_ok rejects_all rejects_all (bytes_of ''ts=x'')"
  by (simp add: Telemetry_from_json_ok_def bytes_of_def bar_def token_ok_def equals_sign_def
      rejects_all_def)

lemma sat_step_dup:
  "verify_crc pkt \<Longrightarrow> type pkt = CommandPkt \<Longrightarrow> seq pkt < sat_rx_seq_expected st \<Longrightarrow>
   sat_process_packet ao bo pkt st
     = st\<lparr>sat_link_out := sat_link_out st @ [make_reply AckPkt (seq pkt)]\<rparr>"
  by (simp add: sat_process_packet_def)

lemma sat_step_fresh:
  "verify_crc pkt \<Longrightarrow> type pkt = CommandPkt \<Longrightarrow> \<not> seq pkt < sat_rx_seq_expected st \<Longrightarrow>
   sat_rx_seq_expected (sat_process_packet ao bo pkt st) = seq pkt + 1
   \<and> (case Command_deserialize ao bo (payload pkt) of
        Some cmd \<Rightarrow>
          sat_executed (sat_process_packet ao bo pkt st) = sat_executed st @ [(seq pkt, cmd)]
          \<and> sat_commands_received (sat_process_packet ao bo pkt st) = sat_commands_received st + 1
          \<and> sat_link_out (sat_process_packet ao bo pkt st)
              = sat_link_out st @ [make_reply AckPkt (seq pkt)]
      | None \<Rightarrow>
          sat_executed (sat_process_packet ao bo pkt st) = sat_executed st
          \<and> sat_commands_received (sat_process_packet ao bo pkt st) = sat_commands_received st
          \<and> sat_link_out (sat_process_packet ao bo pkt st)
              = sat_link_out st @ [make_reply NakPkt (seq pkt)])"
  by (simp add: sat_process_packet_def Let_def execute_command_def
      split: option.splits CommandType.splits)

lemma gs_step_dup:
  "verify_crc pkt \<Longrightarrow> type pkt = TelemetryPkt \<Longrightarrow> seq pkt < gs_rx_seq_expected st \<Longrightarrow>
   gs_receive_packet so sd pkt st
     = st\<lparr>gs_link_out := gs_link_out st @ [make_reply AckPkt (seq pkt)]\<rparr>"
  by (simp add: gs_receive_packet_def)

lemma gs_step_fresh:
  "verify_crc pkt \<Longrightarrow> type pkt = TelemetryPkt \<Longrightarrow> \<not> seq pkt < gs_rx_seq_expected st \<Longrightarrow>
   gs_rx_seq_expected (gs_receive_packet so sd pkt st) = seq pkt + 1
   \<and> (if Telemetry_from_json_ok so sd (payload pkt) then
          gs_logged (gs_receive_packet so sd pkt st) = gs_logged st @ [(seq pkt, payload pkt)]
          \<and> gs_telemetry_received (gs_receive_packet so sd pkt st) = gs_telemetry_received st + 1
          \<and> gs_link_out (gs_receive_packet so sd pkt st)
              = gs_link_out st @ [make_reply AckPkt (seq pkt)]
       else
          gs_logged (gs_receive_packet so sd pkt st) = gs_logged st
          \<and> gs_telemetry_received (gs_receive_packet so sd pkt st) = gs_telemetry_received st
          \<and> gs_link_out (gs_receive_packet so sd pkt st)
              = gs_link_out st @ [make_reply NakPkt (seq pkt)])"
  by (simp add: gs_receive_packet_def Let_def)

lemma less_succ_u32: "(s::u32) \<noteq> 0xFFFFFFFF \<Longrightarrow> s < s + 1"
proof -
  assume "s \<noteq> 0xFFFFFFFF"
  then have "unat s \<noteq> unat (0xFFFFFFFF::u32)" by (simp only: word_unat_eq_iff not_False_eq_True)
  moreover have "unat s < 2 ^ 32" using unsigned_less[of s] by simp
  ultimately have "unat s + 1 < 2 ^ 32" by simp
  then have "unat (s + 1) = unat s + 1" by (simp add: unat_word_ariths)
  then show ?thesis by (simp add: word_less_nat_alt)
qed

lemma sat_step_rx_mono:
  "seq pkt \<noteq> 0xFFFFFFFF \<Longrightarrow>
   sat_rx_seq_expected st \<le> sat_rx_seq_expected (sat_process_packet ao bo pkt st)"
  using less_succ_u32[of "seq pkt"]
  by (auto simp add: sat_process_packet_def Let_def execute_command_def
      split: option.splits CommandType.splits)

lemma sat_executed_step:
  "sat_executed (sat_process_packet ao bo pkt st) = sat_executed st
   \<or> (\<exists>cmd. sat_executed (sat_process_packet ao bo pkt st) = sat_executed st @ [(seq pkt, cmd)]
        \<and> sat_rx_seq_expected st \<le> seq pkt
        \<and> sat_rx_seq_expected (sat_process_packet ao bo pkt st) = seq pkt + 1)"
  by (auto simp add: sat_process_packet_def Let_def execute_command_def
      split: option.splits CommandType.splits)

lemma sat_step_inv:
  assumes nomax: "seq pkt \<noteq> 0xFFFFFFFF"
    and d: "distinct (map fst (sat_executed st))"
    and b: "\<forall>s \<in> fst ` set (sat_executed st). s < sat_rx_seq_expected st"
  shows "distinct (map fst (sat_executed (sat_process_packet ao bo pkt st)))
         \<and> (\<forall>s \<in> fst ` set (sat_executed (sat_process_packet ao bo pkt st)).
               s < sat_rx_seq_expected (sat_process_packet ao bo pkt st))"
proof -
  let ?st' = "sat_process_packet ao bo pkt st"
  have mono: "sat_rx_seq_expected st \<le> sat_rx_seq_expected ?st'"
    using nomax by (rule sat_step_rx_mono)
  from sat_executed_step[of ao bo pkt st] show ?thesis
  proof
    assume "sat_executed ?st' = sat_executed st"
    with d b mono show ?thesis by auto
  next
    assume "\<exists>cmd. sat_executed ?st' = sat_executed st @ [(seq pkt, cmd)]
        \<and> sat_rx_seq_expected st \<le> seq pkt \<and> sat_rx_seq_expected ?st' = seq pkt + 1"
    then obtain cmd where e: "sat_executed ?st' = sat_executed st @ [(seq pkt, cmd)]"
      and le: "sat_rx_seq_expected st \<le> seq pkt"
      and rx: "sat_rx_seq_expected ?st' = seq pkt + 1" by blast
    have lt: "seq pkt < seq pkt + 1" using nomax by (rule less_succ_u32)
    have notin: "seq pkt \<notin> fst ` set (sat_executed st)" using b le by auto
    show ?thesis using d b le lt notin by (auto simp add: e rx)
  qed
qed

lemma process_commands_inv:
  "\<forall>p \<in> set q. seq p \<noteq> 0xFFFFFFFF \<Longrightarrow>
   distinct (map fst (sat_executed st)) \<Longrightarrow>
   \<forall>s \<in> fst ` set (sat_executed st). s < sat_rx_seq_expected st \<Longrightarrow>
   distinct (map fst (sat_executed (process_commands ao bo q st)))
   \<and> sat_rx_seq_expected st \<le> sat_rx_seq_expected (process_commands ao bo q st)"
proof (induction q arbitrary: st)
  case Nil
  then show ?case by simp
next
  case (Cons p q)
  have nomax: "seq p \<noteq> 0xFFFFFFFF" using Cons.prems(1) by simp
  from sat_step_inv[OF nomax Cons.prems(2) Cons.prems(3), of ao bo]
  have d': "distinct (map fst (sat_executed (sat_process_packet ao bo p st)))"
    and b': "\<forall>s \<in> fst ` set (sat_executed (sat_process_packet ao bo p st)).
               s < sat_rx_seq_expected (sat_process_packet ao bo p st)" by blast+
  have rest: "\<forall>p \<in> set q. seq p \<noteq> 0xFFFFFFFF" using Cons.prems(1) by simp
  from Cons.IH[OF rest d' b'] sat_step_rx_mono[OF nomax, of st ao bo]
  show ?case by auto
qed

lemma gs_step_rx_mono:
  "seq pkt \<noteq> 0xFFFFFFFF \<Longrightarrow>
   gs_rx_seq_expected st \<le> gs_rx_seq_expected (gs_receive_packet so sd pkt st)"
  using less_succ_u32[of "seq pkt"]
  by (auto simp add: gs_receive_packet_def Let_def)

lemma gs_logged_step:
  "gs_logged (gs_receive_packet so sd pkt st) = gs_logged st
   \<or> (gs_logged (gs_receive_packet so sd pkt st) = gs_logged st @ [(seq pkt, payload pkt)]
        \<and> gs_rx_seq_expected st \<le> seq pkt
        \<and> gs_rx_seq_expected (gs_receive_packet so sd pkt st) = seq pkt + 1)"
  by (auto simp add: gs_receive_packet_def Let_def)

lemma gs_step_inv:
  assumes nomax: "seq pkt \<noteq> 0xFFFFFFFF"
    and d: "distinct (map fst (gs_logged st))"
    and b: "\<forall>s \<in> fst ` set (gs_logged st). s < gs_rx_seq_expected st"
  shows "distinct (map fst (gs_logged (gs_receive_packet so sd pkt st)))
         \<and> (\<forall>s \<in> fst ` set (gs_logged (gs_receive_packet so sd pkt st)).
               s < gs_rx_seq_expected (gs_receive_packet so sd pkt st))"
proof -
  let ?st' = "gs_receive_packet so sd pkt st"
  have mono: "gs_rx_seq_expected st \<le> gs_rx_seq_expected ?st'"
    using nomax by (rule gs_step_rx_mono)
  from gs_logged_step[of so sd pkt st] show ?thesis
  proof
    assume "gs_logged ?st' = gs_logged st"
    with d b mono show ?thesis by auto
  next
    assume a: "gs_logged ?st' = gs_logged st @ [(seq pkt, payload pkt)]
        \<and> gs_rx_seq_expected st \<le> seq pkt \<and> gs_rx_seq_expected ?st' = seq pkt + 1"
    then have e: "gs_logged ?st' = gs_logged st @ [(seq pkt, payload pkt)]"
      and le: "gs_rx_seq_expected st \<le> seq pkt"
      and rx: "gs_rx_seq_expected ?st' = seq pkt + 1" by blast+
    have lt: "seq pkt < seq pkt + 1" using nomax by (rule less_succ_u32)
    have notin: "seq pkt \<notin> fst ` set (gs_logged st)" using b le by auto
    show ?thesis using d b le lt notin by (auto simp add: e rx)
  qed
qed

lemma receive_telemetry_inv:
  "\<forall>p \<in> set q. seq p \<noteq> 0xFFFFFFFF \<Longrightarrow>
   distinct (map fst (gs_logged st)) \<Longrightarrow>
   \<forall>s \<in> fst ` set (gs_logged st). s < gs_rx_seq_expected st \<Longrightarrow>
   distinct (map fst (gs_logged (receive_telemetry so sd q st)))
   \<and> gs_rx_seq_expected st \<le> gs_rx_seq_expected (receive_telemetry so sd q st)"
proof (induction q arbitrary: st)
  case Nil
  then show ?case by simp
next
  case (Cons p q)
  have nomax: "seq p \<noteq> 0xFFFFFFFF" using Cons.prems(1) by simp
  from gs_step_inv[OF nomax Cons.prems(2) Cons.prems(3), of so sd]
  have d': "distinct (map fst (gs_logged (gs_receive_packet so sd p st)))"
    and b': "\<forall>s \<in> fst ` set (gs_logged (gs_receive_packet so sd p st)).
               s < gs_rx_seq_expected (gs_receive_packet so sd p st)" by blast+
  have rest: "\<forall>p \<in> set q. seq p \<noteq> 0xFFFFFFFF" using Cons.prems(1) by simp
  from Cons.IH[OF rest d' b'] gs_step_rx_mono[OF nomax, of st so sd]
  show ?case by auto
qed

lemma process_commands_rx_mono:
  "\<forall>p \<in> set q. seq p \<noteq> 0xFFFFFFFF \<Longrightarrow>
   sat_rx_seq_expected st \<le> sat_rx_seq_expected (process_commands ao bo q st)"
proof (induction q arbitrary: st)
  case Nil
  then show ?case by simp
next
  case (Cons p q)
  have "sat_rx_seq_expected st \<le> sat_rx_seq_expected (sat_process_packet ao bo p st)"
    using Cons.prems by (simp add: sat_step_rx_mono)
  also have "\<dots> \<le> sat_rx_seq_expected (process_commands ao bo q (sat_process_packet ao bo p st))"
    using Cons.prems by (intro Cons.IH) simp
  finally show ?case by simp
qed

lemma receive_telemetry_rx_mono:
  "\<forall>p \<in> set q. seq p \<noteq> 0xFFFFFFFF \<Longrightarrow>
   gs_rx_seq_expected st \<le> gs_rx_seq_expected (receive_telemetry so sd q st)"
proof (induction q arbitrary: st)
  case Nil
  then show ?case by simp
next
  case (Cons p q)
  have "gs_rx_seq_expected st \<le> gs_rx_seq_expected (gs_receive_packet so sd p st)"
    using Cons.prems by (simp add: gs_step_rx_mono)
  also have "\<dots> \<le> gs_rx_seq_expected (receive_telemetry so sd q (gs_receive_packet so sd p st))"
    using Cons.prems by (intro Cons.IH) simp
  finally show ?case by simp
qed

text \<open>
  Claim C5 as stated fails in two ways. The expected number is computed as
  \<open>seq + 1\<close> on 32 bits: a command with the sequence number \<open>0xFFFFFFFF\<close> sets it
  to 0, so the number goes down and the same command, received again, is executed
  again. And a packet with a sequence number that is not below the expected one is
  not delivered when its payload does not parse: the expected number advances and the
  reply is a NAK.
\<close>

theorem dedup_counterexample:
  "sat_executed (process_commands rejects_all rejects_all
      [make_data CommandPkt 0xFFFFFFFF (bytes_of ''REBOOT''),
       make_data CommandPkt 0xFFFFFFFF (bytes_of ''REBOOT'')] Satellite_new)
     = [(0xFFFFFFFF, Reboot), (0xFFFFFFFF, Reboot)]
   \<and> sat_rx_seq_expected (process_commands rejects_all rejects_all
      [make_data CommandPkt 0xFFFFFFFF (bytes_of ''REBOOT'')]
      (Satellite_new\<lparr>sat_rx_seq_expected := 7\<rparr>)) = 0
   \<and> sat_executed (process_commands rejects_all rejects_all
      [make_data CommandPkt 0 (bytes_of ''BOGUS'')] Satellite_new) = []
   \<and> sat_rx_seq_expected (process_commands rejects_all rejects_all
      [make_data CommandPkt 0 (bytes_of ''BOGUS'')] Satellite_new) = 1"
  by (simp add: sat_process_packet_def verify_crc_make_data make_data_fields Satellite_new_def
      deser_reboot deser_bogus execute_command_def)

text \<open>
  Claim C5, amended. For a data packet of the endpoint's type that passes the
  checksum: if its sequence number is below \<open>rx_seq_expected\<close>, the endpoint sends
  an ACK with that number, delivers nothing and leaves \<open>rx_seq_expected\<close>; otherwise
  it sets \<open>rx_seq_expected\<close> to \<open>seq + 1\<close> (modulo \<open>2 ^ 32\<close>) and, when the payload
  parses, delivers it and sends the ACK, and when it does not parse, delivers nothing
  and sends a NAK. Consequently, for every sequence of received packets none of which
  carries the sequence number \<open>0xFFFFFFFF\<close>, no sequence number is delivered twice in
  a session and \<open>rx_seq_expected\<close> never decreases.
\<close>

theorem duplicate_suppression:
  "(verify_crc pkt \<and> type pkt = CommandPkt \<and> seq pkt < sat_rx_seq_expected st \<longrightarrow>
      sat_process_packet ao bo pkt st
        = st\<lparr>sat_link_out := sat_link_out st @ [make_reply AckPkt (seq pkt)]\<rparr>)
   \<and> (verify_crc pkt \<and> type pkt = CommandPkt \<and> \<not> seq pkt < sat_rx_seq_expected st \<longrightarrow>
      sat_rx_seq_expected (sat_process_packet ao bo pkt st) = seq pkt + 1
      \<and> (case Command_deserialize ao bo (payload pkt) of
           Some cmd \<Rightarrow>
             sat_executed (sat_process_packet ao bo pkt st) = sat_executed st @ [(seq pkt, cmd)]
             \<and> sat_commands_received (sat_process_packet ao bo pkt st)
                 = sat_commands_received st + 1
             \<and> sat_link_out (sat_process_packet ao bo pkt st)
                 = sat_link_out st @ [make_reply AckPkt (seq pkt)]
         | None \<Rightarrow>
             sat_executed (sat_process_packet ao bo pkt st) = sat_executed st
             \<and> sat_commands_received (sat_process_packet ao bo pkt st) = sat_commands_received st
             \<and> sat_link_out (sat_process_packet ao bo pkt st)
                 = sat_link_out st @ [make_reply NakPkt (seq pkt)]))
   \<and> (verify_crc pkt \<and> type pkt = TelemetryPkt \<and> seq pkt < gs_rx_seq_expected gst \<longrightarrow>
      gs_receive_packet so sd pkt gst
        = gst\<lparr>gs_link_out := gs_link_out gst @ [make_reply AckPkt (seq pkt)]\<rparr>)
   \<and> (verify_crc pkt \<and> type pkt = TelemetryPkt \<and> \<not> seq pkt < gs_rx_seq_expected gst \<longrightarrow>
      gs_rx_seq_expected (gs_receive_packet so sd pkt gst) = seq pkt + 1
      \<and> (if Telemetry_from_json_ok so sd (payload pkt) then
            gs_logged (gs_receive_packet so sd pkt gst) = gs_logged gst @ [(seq pkt, payload pkt)]
            \<and> gs_telemetry_received (gs_receive_packet so sd pkt gst)
                = gs_telemetry_received gst + 1
            \<and> gs_link_out (gs_receive_packet so sd pkt gst)
                = gs_link_out gst @ [make_reply AckPkt (seq pkt)]
          else
            gs_logged (gs_receive_packet so sd pkt gst) = gs_logged gst
            \<and> gs_telemetry_received (gs_receive_packet so sd pkt gst) = gs_telemetry_received gst
            \<and> gs_link_out (gs_receive_packet so sd pkt gst)
                = gs_link_out gst @ [make_reply NakPkt (seq pkt)]))
   \<and> seq (make_reply AckPkt (seq pkt)) = seq pkt
   \<and> type (make_reply AckPkt (seq pkt)) = AckPkt
   \<and> ((\<forall>p \<in> set q. seq p \<noteq> 0xFFFFFFFF) \<longrightarrow>
        distinct (map fst (sat_executed (process_commands ao bo q Satellite_new)))
        \<and> sat_rx_seq_expected st \<le> sat_rx_seq_expected (process_commands ao bo q st)
        \<and> distinct (map fst (gs_logged (receive_telemetry so sd q GroundStation_new)))
        \<and> gs_rx_seq_expected gst \<le> gs_rx_seq_expected (receive_telemetry so sd q gst))"
proof (intro conjI impI)
  assume "verify_crc pkt \<and> type pkt = CommandPkt \<and> seq pkt < sat_rx_seq_expected st"
  then show "sat_process_packet ao bo pkt st
        = st\<lparr>sat_link_out := sat_link_out st @ [make_reply AckPkt (seq pkt)]\<rparr>"
    by (simp add: sat_step_dup)
next
  assume a: "verify_crc pkt \<and> type pkt = CommandPkt \<and> \<not> seq pkt < sat_rx_seq_expected st"
  with sat_step_fresh[of pkt st ao bo]
  show "sat_rx_seq_expected (sat_process_packet ao bo pkt st) = seq pkt + 1" by blast
  from a sat_step_fresh[of pkt st ao bo]
  show "case Command_deserialize ao bo (payload pkt) of
           Some cmd \<Rightarrow>
             sat_executed (sat_process_packet ao bo pkt st) = sat_executed st @ [(seq pkt, cmd)]
             \<and> sat_commands_received (sat_process_packet ao bo pkt st)
                 = sat_commands_received st + 1
             \<and> sat_link_out (sat_process_packet ao bo pkt st)
                 = sat_link_out st @ [make_reply AckPkt (seq pkt)]
         | None \<Rightarrow>
             sat_executed (sat_process_packet ao bo pkt st) = sat_executed st
             \<and> sat_commands_received (sat_process_packet ao bo pkt st) = sat_commands_received st
             \<and> sat_link_out (sat_process_packet ao bo pkt st)
                 = sat_link_out st @ [make_reply NakPkt (seq pkt)]" by blast
next
  assume "verify_crc pkt \<and> type pkt = TelemetryPkt \<and> seq pkt < gs_rx_seq_expected gst"
  then show "gs_receive_packet so sd pkt gst
        = gst\<lparr>gs_link_out := gs_link_out gst @ [make_reply AckPkt (seq pkt)]\<rparr>"
    by (simp add: gs_step_dup)
next
  assume a: "verify_crc pkt \<and> type pkt = TelemetryPkt \<and> \<not> seq pkt < gs_rx_seq_expected gst"
  with gs_step_fresh[of pkt gst so sd]
  show "gs_rx_seq_expected (gs_receive_packet so sd pkt gst) = seq pkt + 1" by blast
  from a gs_step_fresh[of pkt gst so sd]
  show "if Telemetry_from_json_ok so sd (payload pkt) then
            gs_logged (gs_receive_packet so sd pkt gst) = gs_logged gst @ [(seq pkt, payload pkt)]
            \<and> gs_telemetry_received (gs_receive_packet so sd pkt gst)
                = gs_telemetry_received gst + 1
            \<and> gs_link_out (gs_receive_packet so sd pkt gst)
                = gs_link_out gst @ [make_reply AckPkt (seq pkt)]
          else
            gs_logged (gs_receive_packet so sd pkt gst) = gs_logged gst
            \<and> gs_telemetry_received (gs_receive_packet so sd pkt gst) = gs_telemetry_received gst
            \<and> gs_link_out (gs_receive_packet so sd pkt gst)
                = gs_link_out gst @ [make_reply NakPkt (seq pkt)]" by blast
next
  show "seq (make_reply AckPkt (seq pkt)) = seq pkt" by (simp add: make_reply_fields)
  show "type (make_reply AckPkt (seq pkt)) = AckPkt" by (simp add: make_reply_fields)
next
  assume nm: "\<forall>p \<in> set q. seq p \<noteq> 0xFFFFFFFF"
  show "distinct (map fst (sat_executed (process_commands ao bo q Satellite_new)))"
    using process_commands_inv[OF nm, of Satellite_new ao bo] by (simp add: Satellite_new_def)
  show "sat_rx_seq_expected st \<le> sat_rx_seq_expected (process_commands ao bo q st)"
    using nm by (rule process_commands_rx_mono)
  show "distinct (map fst (gs_logged (receive_telemetry so sd q GroundStation_new)))"
    using receive_telemetry_inv[OF nm, of GroundStation_new so sd]
    by (simp add: GroundStation_new_def)
  show "gs_rx_seq_expected gst \<le> gs_rx_seq_expected (receive_telemetry so sd q gst)"
    using nm by (rule receive_telemetry_rx_mono)
qed

theorem duplicate_suppression_witness:
  "gs_logged (receive_telemetry rejects_all rejects_all
      [make_data TelemetryPkt 5 (bytes_of ''hello''),
       make_data TelemetryPkt 5 (bytes_of ''hello'')] GroundStation_new)
     = [(5, bytes_of ''hello'')]
   \<and> gs_link_out (receive_telemetry rejects_all rejects_all
      [make_data TelemetryPkt 5 (bytes_of ''hello''),
       make_data TelemetryPkt 5 (bytes_of ''hello'')] GroundStation_new)
     = [make_reply AckPkt 5, make_reply AckPkt 5]
   \<and> gs_rx_seq_expected (receive_telemetry rejects_all rejects_all
      [make_data TelemetryPkt 5 (bytes_of ''hello''),
       make_data TelemetryPkt 5 (bytes_of ''hello'')] GroundStation_new) = 6
   \<and> sat_executed (process_commands rejects_all rejects_all
      [make_data CommandPkt 0 (bytes_of ''REBOOT''),
       make_data CommandPkt 0 (bytes_of ''REBOOT'')] Satellite_new)
     = [(0, Reboot)]
   \<and> sat_link_out (process_commands rejects_all rejects_all
      [make_data CommandPkt 0 (bytes_of ''REBOOT''),
       make_data CommandPkt 0 (bytes_of ''REBOOT'')] Satellite_new)
     = [make_reply AckPkt 0, make_reply AckPkt 0]
   \<and> distinct (map fst (sat_executed (process_commands rejects_all rejects_all
      [make_data CommandPkt 0 (bytes_of ''REBOOT''),
       make_data CommandPkt 0 (bytes_of ''REBOOT'')] Satellite_new)))"
proof -
  let ?t = "make_data TelemetryPkt 5 (bytes_of ''hello'')"
  let ?c = "make_data CommandPkt 0 (bytes_of ''REBOOT'')"
  let ?g1 = "gs_receive_packet rejects_all rejects_all ?t GroundStation_new"
  let ?s1 = "sat_process_packet rejects_all rejects_all ?c Satellite_new"
  have tk: "TelemetryPkt \<noteq> CommandPkt" by (simp add: TelemetryPkt_def CommandPkt_def)
  have g1: "gs_rx_seq_expected ?g1 = 6 \<and> gs_logged ?g1 = [(5, bytes_of ''hello'')]
            \<and> gs_link_out ?g1 = [make_reply AckPkt 5]"
    using duplicate_suppression[where pkt = ?t and gst = GroundStation_new
        and so = rejects_all and sd = rejects_all and q = "[]"] tk
    by (simp add: verify_crc_make_data make_data_fields GroundStation_new_def json_hello)
  have g2: "gs_receive_packet rejects_all rejects_all ?t ?g1
            = ?g1\<lparr>gs_link_out := gs_link_out ?g1 @ [make_reply AckPkt 5]\<rparr>"
    using duplicate_suppression[where pkt = ?t and gst = ?g1
        and so = rejects_all and sd = rejects_all and q = "[]"] tk g1
    by (simp add: verify_crc_make_data make_data_fields)
  have s1: "sat_rx_seq_expected ?s1 = 1 \<and> sat_executed ?s1 = [(0, Reboot)]
            \<and> sat_link_out ?s1 = [make_reply AckPkt 0]"
    using duplicate_suppression[where pkt = ?c and st = Satellite_new
        and ao = rejects_all and bo = rejects_all and q = "[]"] tk
    by (simp add: verify_crc_make_data make_data_fields Satellite_new_def deser_reboot)
  have s2: "sat_process_packet rejects_all rejects_all ?c ?s1
            = ?s1\<lparr>sat_link_out := sat_link_out ?s1 @ [make_reply AckPkt 0]\<rparr>"
    using duplicate_suppression[where pkt = ?c and st = ?s1
        and ao = rejects_all and bo = rejects_all and q = "[]"] tk s1
    by (simp add: verify_crc_make_data make_data_fields)
  have d: "distinct (map fst (sat_executed (process_commands rejects_all rejects_all
             [?c, ?c] Satellite_new)))"
    using duplicate_suppression[where q = "[?c, ?c]" and ao = rejects_all and bo = rejects_all]
    by (simp add: make_data_fields)
  show ?thesis using g1 g2 s1 s2 d by simp
qed


declare sat_retry_loop.simps [simp del] gs_retry_loop.simps [simp del]

lemma sat_retry_loop_stop:
  "\<not> (retry \<le> mr \<and> running (nat retry)) \<Longrightarrow>
   sat_retry_loop mr running inbound pkt retry st = (False, st)"
  by (subst sat_retry_loop.simps) (simp only: if_False)

lemma sat_retry_loop_step:
  "retry \<le> mr \<Longrightarrow> running (nat retry) \<Longrightarrow>
   sat_retry_loop mr running inbound pkt retry st =
     (let st1 = (if retry > 0 then st\<lparr>sat_retries := sat_retries st + 1\<rparr> else st);
          st2 = st1\<lparr>sat_link_out := sat_link_out st1 @ [pkt]\<rparr>;
          st3 = (if nacked (seq pkt) (inbound (nat retry))
                 then st2\<lparr>sat_naks_received := sat_naks_received st2 + 1\<rparr> else st2)
      in if acked (seq pkt) (inbound (nat retry)) then (True, st3)
         else sat_retry_loop mr running inbound pkt (retry + 1) st3)"
  by (subst sat_retry_loop.simps) (simp add: sat_wait_for_ack_eq Let_def)

lemma sat_retry_loop_spec:
  assumes run: "\<And>k. running k"
  shows "0 \<le> r \<Longrightarrow>
    \<exists>n. sat_link_out (snd (sat_retry_loop mr running inbound pkt r st))
          = sat_link_out st @ replicate n pkt
      \<and> n \<le> nat (mr + 1 - r)
      \<and> (\<forall>j. j + 1 < n \<longrightarrow> \<not> acked (seq pkt) (inbound (nat r + j)))
      \<and> (fst (sat_retry_loop mr running inbound pkt r st)
           \<longleftrightarrow> 0 < n \<and> acked (seq pkt) (inbound (nat r + (n - 1))))
      \<and> (\<not> fst (sat_retry_loop mr running inbound pkt r st) \<longrightarrow> n = nat (mr + 1 - r))
      \<and> sat_retries (snd (sat_retry_loop mr running inbound pkt r st))
          = sat_retries st + of_nat (n - (if r = 0 then 1 else 0))
      \<and> sat_telemetry_sent (snd (sat_retry_loop mr running inbound pkt r st))
          = sat_telemetry_sent st
      \<and> sat_tx_seq (snd (sat_retry_loop mr running inbound pkt r st)) = sat_tx_seq st"
proof (induction "nat (mr + 1 - r)" arbitrary: r st)
  case 0
  then have "\<not> (r \<le> mr \<and> running (nat r))" by simp
  then have "sat_retry_loop mr running inbound pkt r st = (False, st)"
    by (rule sat_retry_loop_stop)
  with 0 show ?case by (intro exI[of _ 0]) simp
next
  case (Suc m)
  then have le: "r \<le> mr" by simp
  let ?st1 = "(if r > 0 then st\<lparr>sat_retries := sat_retries st + 1\<rparr> else st)"
  let ?st2 = "?st1\<lparr>sat_link_out := sat_link_out ?st1 @ [pkt]\<rparr>"
  let ?st3 = "(if nacked (seq pkt) (inbound (nat r))
                 then ?st2\<lparr>sat_naks_received := sat_naks_received ?st2 + 1\<rparr> else ?st2)"
  have step: "sat_retry_loop mr running inbound pkt r st =
      (if acked (seq pkt) (inbound (nat r)) then (True, ?st3)
       else sat_retry_loop mr running inbound pkt (r + 1) ?st3)"
    using sat_retry_loop_step[OF le run, where inbound = inbound and pkt = pkt and st = st]
    by (simp add: Let_def)
  have out3: "sat_link_out ?st3 = sat_link_out st @ [pkt]" by simp
  have ret3: "sat_retries ?st3 = sat_retries st + (if r > 0 then 1 else 0)" by simp
  have ts3: "sat_telemetry_sent ?st3 = sat_telemetry_sent st" by simp
  have tx3: "sat_tx_seq ?st3 = sat_tx_seq st" by simp
  show ?case
  proof (cases "acked (seq pkt) (inbound (nat r))")
    case True
    then have res: "sat_retry_loop mr running inbound pkt r st = (True, ?st3)"
      using step by simp
    show ?thesis
      unfolding res using True le Suc.prems
      by (intro exI[of _ "Suc 0"]) auto
  next
    case False
    then have res: "sat_retry_loop mr running inbound pkt r st
                     = sat_retry_loop mr running inbound pkt (r + 1) ?st3"
      using step by simp
    have m: "m = nat (mr + 1 - (r + 1))" using Suc.hyps(2) by simp
    have r1: "0 \<le> r + 1" using Suc.prems by simp
    from Suc.hyps(1)[OF m r1, of ?st3]
    obtain n where
      a1: "sat_link_out (snd (sat_retry_loop mr running inbound pkt (r + 1) ?st3))
             = sat_link_out ?st3 @ replicate n pkt"
      and a2: "n \<le> nat (mr + 1 - (r + 1))"
      and a3: "\<forall>j. j + 1 < n \<longrightarrow> \<not> acked (seq pkt) (inbound (nat (r + 1) + j))"
      and a4: "fst (sat_retry_loop mr running inbound pkt (r + 1) ?st3)
                 \<longleftrightarrow> 0 < n \<and> acked (seq pkt) (inbound (nat (r + 1) + (n - 1)))"
      and a5: "\<not> fst (sat_retry_loop mr running inbound pkt (r + 1) ?st3)
                 \<longrightarrow> n = nat (mr + 1 - (r + 1))"
      and a6: "sat_retries (snd (sat_retry_loop mr running inbound pkt (r + 1) ?st3))
                 = sat_retries ?st3 + of_nat (n - (if r + 1 = 0 then 1 else 0))"
      and a7: "sat_telemetry_sent (snd (sat_retry_loop mr running inbound pkt (r + 1) ?st3))
                 = sat_telemetry_sent ?st3"
      and a8: "sat_tx_seq (snd (sat_retry_loop mr running inbound pkt (r + 1) ?st3))
                 = sat_tx_seq ?st3"
      by blast
    have nr: "nat (r + 1) = Suc (nat r)" using Suc.prems by simp
    have b1: "sat_link_out (snd (sat_retry_loop mr running inbound pkt r st))
                = sat_link_out st @ replicate (Suc n) pkt"
      unfolding res a1 out3 by (simp add: replicate_app_Cons_same)
    have b2: "Suc n \<le> nat (mr + 1 - r)" using a2 le by simp
    have b3: "\<forall>j. j + 1 < Suc n \<longrightarrow> \<not> acked (seq pkt) (inbound (nat r + j))"
    proof (intro allI impI)
      fix j assume j: "j + 1 < Suc n"
      show "\<not> acked (seq pkt) (inbound (nat r + j))"
      proof (cases j)
        case 0
        then show ?thesis using False by simp
      next
        case (Suc i)
        then have "i + 1 < n" using j by simp
        with a3 have "\<not> acked (seq pkt) (inbound (nat (r + 1) + i))" by blast
        then show ?thesis using Suc nr by simp
      qed
    qed
    have b4: "fst (sat_retry_loop mr running inbound pkt r st)
                \<longleftrightarrow> 0 < Suc n \<and> acked (seq pkt) (inbound (nat r + (Suc n - 1)))"
    proof (cases n)
      case 0
      then show ?thesis unfolding res using a4 False by simp
    next
      case (Suc i)
      then show ?thesis unfolding res using a4 nr by simp
    qed
    have b5: "\<not> fst (sat_retry_loop mr running inbound pkt r st) \<longrightarrow> Suc n = nat (mr + 1 - r)"
      unfolding res using a5 le by auto
    have b6: "sat_retries (snd (sat_retry_loop mr running inbound pkt r st))
                = sat_retries st + of_nat (Suc n - (if r = 0 then 1 else 0))"
      unfolding res a6 ret3 using Suc.prems by (cases "r = 0") simp_all
    have b7: "sat_telemetry_sent (snd (sat_retry_loop mr running inbound pkt r st))
                = sat_telemetry_sent st"
      unfolding res a7 ts3 ..
    have b8: "sat_tx_seq (snd (sat_retry_loop mr running inbound pkt r st)) = sat_tx_seq st"
      unfolding res a8 tx3 ..
    from b1 b2 b3 b4 b5 b6 b7 b8 show ?thesis by blast
  qed
qed

lemma gs_retry_loop_stop:
  "\<not> (retry \<le> mr \<and> running (nat retry)) \<Longrightarrow>
   gs_retry_loop mr running inbound pkt retry st = (False, st)"
  by (subst gs_retry_loop.simps) (simp only: if_False)

lemma gs_retry_loop_step:
  "retry \<le> mr \<Longrightarrow> running (nat retry) \<Longrightarrow>
   gs_retry_loop mr running inbound pkt retry st =
     (let st1 = (if retry > 0 then st\<lparr>gs_retries := gs_retries st + 1\<rparr> else st);
          st2 = st1\<lparr>gs_link_out := gs_link_out st1 @ [pkt]\<rparr>
      in if acked (seq pkt) (inbound (nat retry)) then (True, st2)
         else gs_retry_loop mr running inbound pkt (retry + 1) st2)"
  by (subst gs_retry_loop.simps) (simp add: gs_wait_for_ack_eq Let_def)

lemma gs_retry_loop_spec:
  assumes run: "\<And>k. running k"
  shows "0 \<le> r \<Longrightarrow>
    \<exists>n. gs_link_out (snd (gs_retry_loop mr running inbound pkt r st))
          = gs_link_out st @ replicate n pkt
      \<and> n \<le> nat (mr + 1 - r)
      \<and> (\<forall>j. j + 1 < n \<longrightarrow> \<not> acked (seq pkt) (inbound (nat r + j)))
      \<and> (fst (gs_retry_loop mr running inbound pkt r st)
           \<longleftrightarrow> 0 < n \<and> acked (seq pkt) (inbound (nat r + (n - 1))))
      \<and> (\<not> fst (gs_retry_loop mr running inbound pkt r st) \<longrightarrow> n = nat (mr + 1 - r))
      \<and> gs_retries (snd (gs_retry_loop mr running inbound pkt r st))
          = gs_retries st + of_nat (n - (if r = 0 then 1 else 0))
      \<and> gs_commands_sent (snd (gs_retry_loop mr running inbound pkt r st))
          = gs_commands_sent st
      \<and> gs_tx_seq (snd (gs_retry_loop mr running inbound pkt r st)) = gs_tx_seq st"
proof (induction "nat (mr + 1 - r)" arbitrary: r st)
  case 0
  then have "\<not> (r \<le> mr \<and> running (nat r))" by simp
  then have "gs_retry_loop mr running inbound pkt r st = (False, st)"
    by (rule gs_retry_loop_stop)
  with 0 show ?case by (intro exI[of _ 0]) simp
next
  case (Suc m)
  then have le: "r \<le> mr" by simp
  let ?st1 = "(if r > 0 then st\<lparr>gs_retries := gs_retries st + 1\<rparr> else st)"
  let ?st2 = "?st1\<lparr>gs_link_out := gs_link_out ?st1 @ [pkt]\<rparr>"
  let ?st3 = "?st2"
  have step: "gs_retry_loop mr running inbound pkt r st =
      (if acked (seq pkt) (inbound (nat r)) then (True, ?st3)
       else gs_retry_loop mr running inbound pkt (r + 1) ?st3)"
    using gs_retry_loop_step[OF le run, where inbound = inbound and pkt = pkt and st = st]
    by (simp add: Let_def)
  have out3: "gs_link_out ?st3 = gs_link_out st @ [pkt]" by simp
  have ret3: "gs_retries ?st3 = gs_retries st + (if r > 0 then 1 else 0)" by simp
  have ts3: "gs_commands_sent ?st3 = gs_commands_sent st" by simp
  have tx3: "gs_tx_seq ?st3 = gs_tx_seq st" by simp
  show ?case
  proof (cases "acked (seq pkt) (inbound (nat r))")
    case True
    then have res: "gs_retry_loop mr running inbound pkt r st = (True, ?st3)"
      using step by simp
    show ?thesis
      unfolding res using True le Suc.prems
      by (intro exI[of _ "Suc 0"]) auto
  next
    case False
    then have res: "gs_retry_loop mr running inbound pkt r st
                     = gs_retry_loop mr running inbound pkt (r + 1) ?st3"
      using step by simp
    have m: "m = nat (mr + 1 - (r + 1))" using Suc.hyps(2) by simp
    have r1: "0 \<le> r + 1" using Suc.prems by simp
    from Suc.hyps(1)[OF m r1, of ?st3]
    obtain n where
      a1: "gs_link_out (snd (gs_retry_loop mr running inbound pkt (r + 1) ?st3))
             = gs_link_out ?st3 @ replicate n pkt"
      and a2: "n \<le> nat (mr + 1 - (r + 1))"
      and a3: "\<forall>j. j + 1 < n \<longrightarrow> \<not> acked (seq pkt) (inbound (nat (r + 1) + j))"
      and a4: "fst (gs_retry_loop mr running inbound pkt (r + 1) ?st3)
                 \<longleftrightarrow> 0 < n \<and> acked (seq pkt) (inbound (nat (r + 1) + (n - 1)))"
      and a5: "\<not> fst (gs_retry_loop mr running inbound pkt (r + 1) ?st3)
                 \<longrightarrow> n = nat (mr + 1 - (r + 1))"
      and a6: "gs_retries (snd (gs_retry_loop mr running inbound pkt (r + 1) ?st3))
                 = gs_retries ?st3 + of_nat (n - (if r + 1 = 0 then 1 else 0))"
      and a7: "gs_commands_sent (snd (gs_retry_loop mr running inbound pkt (r + 1) ?st3))
                 = gs_commands_sent ?st3"
      and a8: "gs_tx_seq (snd (gs_retry_loop mr running inbound pkt (r + 1) ?st3))
                 = gs_tx_seq ?st3"
      by blast
    have nr: "nat (r + 1) = Suc (nat r)" using Suc.prems by simp
    have b1: "gs_link_out (snd (gs_retry_loop mr running inbound pkt r st))
                = gs_link_out st @ replicate (Suc n) pkt"
      unfolding res a1 out3 by (simp add: replicate_app_Cons_same)
    have b2: "Suc n \<le> nat (mr + 1 - r)" using a2 le by simp
    have b3: "\<forall>j. j + 1 < Suc n \<longrightarrow> \<not> acked (seq pkt) (inbound (nat r + j))"
    proof (intro allI impI)
      fix j assume j: "j + 1 < Suc n"
      show "\<not> acked (seq pkt) (inbound (nat r + j))"
      proof (cases j)
        case 0
        then show ?thesis using False by simp
      next
        case (Suc i)
        then have "i + 1 < n" using j by simp
        with a3 have "\<not> acked (seq pkt) (inbound (nat (r + 1) + i))" by blast
        then show ?thesis using Suc nr by simp
      qed
    qed
    have b4: "fst (gs_retry_loop mr running inbound pkt r st)
                \<longleftrightarrow> 0 < Suc n \<and> acked (seq pkt) (inbound (nat r + (Suc n - 1)))"
    proof (cases n)
      case 0
      then show ?thesis unfolding res using a4 False by simp
    next
      case (Suc i)
      then show ?thesis unfolding res using a4 nr by simp
    qed
    have b5: "\<not> fst (gs_retry_loop mr running inbound pkt r st) \<longrightarrow> Suc n = nat (mr + 1 - r)"
      unfolding res using a5 le by auto
    have b6: "gs_retries (snd (gs_retry_loop mr running inbound pkt r st))
                = gs_retries st + of_nat (Suc n - (if r = 0 then 1 else 0))"
      unfolding res a6 ret3 using Suc.prems by (cases "r = 0") simp_all
    have b7: "gs_commands_sent (snd (gs_retry_loop mr running inbound pkt r st))
                = gs_commands_sent st"
      unfolding res a7 ts3 ..
    have b8: "gs_tx_seq (snd (gs_retry_loop mr running inbound pkt r st)) = gs_tx_seq st"
      unfolding res a8 tx3 ..
    from b1 b2 b3 b4 b5 b6 b7 b8 show ?thesis by blast
  qed
qed


lemma send_telemetry_eq:
  "send_telemetry mr running inbound telem st =
     (let r = sat_retry_loop mr running inbound (make_data TelemetryPkt (sat_tx_seq st) telem) 0
                (st\<lparr>sat_tx_seq := sat_tx_seq st + 1\<rparr>)
      in if fst r then (snd r)\<lparr>sat_telemetry_sent := sat_telemetry_sent (snd r) + 1\<rparr>
         else snd r)"
  by (simp add: send_telemetry_def Let_def split: prod.splits)

lemma send_command_with_retry_eq:
  "send_command_with_retry mr running inbound cmd st =
     (let r = gs_retry_loop mr running inbound (make_data CommandPkt (gs_tx_seq st) cmd) 0
                (st\<lparr>gs_tx_seq := gs_tx_seq st + 1\<rparr>)
      in if fst r then (snd r)\<lparr>gs_commands_sent := gs_commands_sent (snd r) + 1\<rparr>
         else snd r)"
  by (simp add: send_command_with_retry_def Let_def split: prod.splits)

lemma send_telemetry_spec:
  assumes run: "\<And>k. running k"
  shows "sat_link_out (send_telemetry mr running inbound telem st)
      = sat_link_out st @ replicate
          (sends_between (sat_link_out st) (sat_link_out (send_telemetry mr running inbound telem st)))
          (make_data TelemetryPkt (sat_tx_seq st) telem)
   \<and> sends_between (sat_link_out st) (sat_link_out (send_telemetry mr running inbound telem st))
       \<le> nat (mr + 1)
   \<and> (\<forall>k. k + 1 < sends_between (sat_link_out st)
                     (sat_link_out (send_telemetry mr running inbound telem st))
          \<longrightarrow> \<not> acked (sat_tx_seq st) (inbound k))
   \<and> sat_telemetry_sent (send_telemetry mr running inbound telem st)
       = sat_telemetry_sent st
         + (if 0 < sends_between (sat_link_out st)
                     (sat_link_out (send_telemetry mr running inbound telem st))
               \<and> acked (sat_tx_seq st) (inbound
                     (sends_between (sat_link_out st)
                        (sat_link_out (send_telemetry mr running inbound telem st)) - 1))
            then 1 else 0)
   \<and> (\<not> (0 < sends_between (sat_link_out st)
                     (sat_link_out (send_telemetry mr running inbound telem st))
           \<and> acked (sat_tx_seq st) (inbound
                     (sends_between (sat_link_out st)
                        (sat_link_out (send_telemetry mr running inbound telem st)) - 1)))
        \<longrightarrow> sends_between (sat_link_out st)
              (sat_link_out (send_telemetry mr running inbound telem st)) = nat (mr + 1))
   \<and> sat_retries (send_telemetry mr running inbound telem st)
       = sat_retries st
         + of_nat (sends_between (sat_link_out st)
                     (sat_link_out (send_telemetry mr running inbound telem st)) - 1)"
proof -
  let ?pkt = "make_data TelemetryPkt (sat_tx_seq st) telem"
  let ?st0 = "st\<lparr>sat_tx_seq := sat_tx_seq st + 1\<rparr>"
  let ?r = "sat_retry_loop mr running inbound ?pkt 0 ?st0"
  let ?st' = "send_telemetry mr running inbound telem st"
  have sq: "seq ?pkt = sat_tx_seq st" by (simp add: make_data_fields)
  have z: "(0::int) \<le> 0" by simp
  from sat_retry_loop_spec[of running 0 mr inbound ?pkt ?st0, OF run z]
  obtain n where H:
    "sat_link_out (snd ?r) = sat_link_out ?st0 @ replicate n ?pkt
      \<and> n \<le> nat (mr + 1 - 0)
      \<and> (\<forall>j. j + 1 < n \<longrightarrow> \<not> acked (seq ?pkt) (inbound (nat 0 + j)))
      \<and> (fst ?r \<longleftrightarrow> 0 < n \<and> acked (seq ?pkt) (inbound (nat 0 + (n - 1))))
      \<and> (\<not> fst ?r \<longrightarrow> n = nat (mr + 1 - 0))
      \<and> sat_retries (snd ?r) = sat_retries ?st0 + of_nat (n - (if (0::int) = 0 then 1 else 0))
      \<and> sat_telemetry_sent (snd ?r) = sat_telemetry_sent ?st0
      \<and> sat_tx_seq (snd ?r) = sat_tx_seq ?st0" ..
  note H2 = H[THEN conjunct2]
  note H3 = H2[THEN conjunct2]
  note H4 = H3[THEN conjunct2]
  note H5 = H4[THEN conjunct2]
  note H6 = H5[THEN conjunct2]
  note H7 = H6[THEN conjunct2]
  from H[THEN conjunct1]
  have a1: "sat_link_out (snd ?r) = sat_link_out st @ replicate n ?pkt" by simp
  from H2[THEN conjunct1] have a2: "n \<le> nat (mr + 1)" by simp
  from H3[THEN conjunct1]
  have a3: "\<forall>j. j + 1 < n \<longrightarrow> \<not> acked (sat_tx_seq st) (inbound j)"
    unfolding sq by simp
  from H4[THEN conjunct1]
  have a4: "fst ?r \<longleftrightarrow> 0 < n \<and> acked (sat_tx_seq st) (inbound (n - 1))"
    unfolding sq by simp
  from H5[THEN conjunct1] have a5: "\<not> fst ?r \<longrightarrow> n = nat (mr + 1)" by simp
  from H6[THEN conjunct1]
  have a6: "sat_retries (snd ?r) = sat_retries st + of_nat (n - 1)" by simp
  from H7[THEN conjunct1]
  have a7: "sat_telemetry_sent (snd ?r) = sat_telemetry_sent st" by simp
  have out: "sat_link_out ?st' = sat_link_out st @ replicate n ?pkt"
    using a1 by (simp add: send_telemetry_eq Let_def)
  then have n: "sends_between (sat_link_out st) (sat_link_out ?st') = n"
    by (simp add: sends_between_def)
  have ts: "sat_telemetry_sent ?st' = sat_telemetry_sent st + (if fst ?r then 1 else 0)"
    using a7 by (simp add: send_telemetry_eq Let_def)
  have rt: "sat_retries ?st' = sat_retries st + of_nat (n - 1)"
    using a6 by (simp add: send_telemetry_eq Let_def)
  show ?thesis
    unfolding n
  proof (intro conjI)
    show "sat_link_out ?st' = sat_link_out st @ replicate n ?pkt" by (rule out)
    show "n \<le> nat (mr + 1)" by (rule a2)
    show "\<forall>k. k + 1 < n \<longrightarrow> \<not> acked (sat_tx_seq st) (inbound k)" by (rule a3)
    show "sat_telemetry_sent ?st' = sat_telemetry_sent st
            + (if 0 < n \<and> acked (sat_tx_seq st) (inbound (n - 1)) then 1 else 0)"
      unfolding ts a4 ..
    show "\<not> (0 < n \<and> acked (sat_tx_seq st) (inbound (n - 1))) \<longrightarrow> n = nat (mr + 1)"
      using a4 a5 by blast
    show "sat_retries ?st' = sat_retries st + of_nat (n - 1)" by (rule rt)
  qed
qed

lemma send_command_with_retry_spec:
  assumes run: "\<And>k. running k"
  shows "gs_link_out (send_command_with_retry mr running inbound cmd st)
      = gs_link_out st @ replicate
          (sends_between (gs_link_out st) (gs_link_out (send_command_with_retry mr running inbound cmd st)))
          (make_data CommandPkt (gs_tx_seq st) cmd)
   \<and> sends_between (gs_link_out st) (gs_link_out (send_command_with_retry mr running inbound cmd st))
       \<le> nat (mr + 1)
   \<and> (\<forall>k. k + 1 < sends_between (gs_link_out st)
                     (gs_link_out (send_command_with_retry mr running inbound cmd st))
          \<longrightarrow> \<not> acked (gs_tx_seq st) (inbound k))
   \<and> gs_commands_sent (send_command_with_retry mr running inbound cmd st)
       = gs_commands_sent st
         + (if 0 < sends_between (gs_link_out st)
                     (gs_link_out (send_command_with_retry mr running inbound cmd st))
               \<and> acked (gs_tx_seq st) (inbound
                     (sends_between (gs_link_out st)
                        (gs_link_out (send_command_with_retry mr running inbound cmd st)) - 1))
            then 1 else 0)
   \<and> (\<not> (0 < sends_between (gs_link_out st)
                     (gs_link_out (send_command_with_retry mr running inbound cmd st))
           \<and> acked (gs_tx_seq st) (inbound
                     (sends_between (gs_link_out st)
                        (gs_link_out (send_command_with_retry mr running inbound cmd st)) - 1)))
        \<longrightarrow> sends_between (gs_link_out st)
              (gs_link_out (send_command_with_retry mr running inbound cmd st)) = nat (mr + 1))
   \<and> gs_retries (send_command_with_retry mr running inbound cmd st)
       = gs_retries st
         + of_nat (sends_between (gs_link_out st)
                     (gs_link_out (send_command_with_retry mr running inbound cmd st)) - 1)"
proof -
  let ?pkt = "make_data CommandPkt (gs_tx_seq st) cmd"
  let ?st0 = "st\<lparr>gs_tx_seq := gs_tx_seq st + 1\<rparr>"
  let ?r = "gs_retry_loop mr running inbound ?pkt 0 ?st0"
  let ?st' = "send_command_with_retry mr running inbound cmd st"
  have sq: "seq ?pkt = gs_tx_seq st" by (simp add: make_data_fields)
  have z: "(0::int) \<le> 0" by simp
  from gs_retry_loop_spec[of running 0 mr inbound ?pkt ?st0, OF run z]
  obtain n where H:
    "gs_link_out (snd ?r) = gs_link_out ?st0 @ replicate n ?pkt
      \<and> n \<le> nat (mr + 1 - 0)
      \<and> (\<forall>j. j + 1 < n \<longrightarrow> \<not> acked (seq ?pkt) (inbound (nat 0 + j)))
      \<and> (fst ?r \<longleftrightarrow> 0 < n \<and> acked (seq ?pkt) (inbound (nat 0 + (n - 1))))
      \<and> (\<not> fst ?r \<longrightarrow> n = nat (mr + 1 - 0))
      \<and> gs_retries (snd ?r) = gs_retries ?st0 + of_nat (n - (if (0::int) = 0 then 1 else 0))
      \<and> gs_commands_sent (snd ?r) = gs_commands_sent ?st0
      \<and> gs_tx_seq (snd ?r) = gs_tx_seq ?st0" ..
  note H2 = H[THEN conjunct2]
  note H3 = H2[THEN conjunct2]
  note H4 = H3[THEN conjunct2]
  note H5 = H4[THEN conjunct2]
  note H6 = H5[THEN conjunct2]
  note H7 = H6[THEN conjunct2]
  from H[THEN conjunct1]
  have a1: "gs_link_out (snd ?r) = gs_link_out st @ replicate n ?pkt" by simp
  from H2[THEN conjunct1] have a2: "n \<le> nat (mr + 1)" by simp
  from H3[THEN conjunct1]
  have a3: "\<forall>j. j + 1 < n \<longrightarrow> \<not> acked (gs_tx_seq st) (inbound j)"
    unfolding sq by simp
  from H4[THEN conjunct1]
  have a4: "fst ?r \<longleftrightarrow> 0 < n \<and> acked (gs_tx_seq st) (inbound (n - 1))"
    unfolding sq by simp
  from H5[THEN conjunct1] have a5: "\<not> fst ?r \<longrightarrow> n = nat (mr + 1)" by simp
  from H6[THEN conjunct1]
  have a6: "gs_retries (snd ?r) = gs_retries st + of_nat (n - 1)" by simp
  from H7[THEN conjunct1]
  have a7: "gs_commands_sent (snd ?r) = gs_commands_sent st" by simp
  have out: "gs_link_out ?st' = gs_link_out st @ replicate n ?pkt"
    using a1 by (simp add: send_command_with_retry_eq Let_def)
  then have n: "sends_between (gs_link_out st) (gs_link_out ?st') = n"
    by (simp add: sends_between_def)
  have ts: "gs_commands_sent ?st' = gs_commands_sent st + (if fst ?r then 1 else 0)"
    using a7 by (simp add: send_command_with_retry_eq Let_def)
  have rt: "gs_retries ?st' = gs_retries st + of_nat (n - 1)"
    using a6 by (simp add: send_command_with_retry_eq Let_def)
  show ?thesis
    unfolding n
  proof (intro conjI)
    show "gs_link_out ?st' = gs_link_out st @ replicate n ?pkt" by (rule out)
    show "n \<le> nat (mr + 1)" by (rule a2)
    show "\<forall>k. k + 1 < n \<longrightarrow> \<not> acked (gs_tx_seq st) (inbound k)" by (rule a3)
    show "gs_commands_sent ?st' = gs_commands_sent st
            + (if 0 < n \<and> acked (gs_tx_seq st) (inbound (n - 1)) then 1 else 0)"
      unfolding ts a4 ..
    show "\<not> (0 < n \<and> acked (gs_tx_seq st) (inbound (n - 1))) \<longrightarrow> n = nat (mr + 1)"
      using a4 a5 by blast
    show "gs_retries ?st' = gs_retries st + of_nat (n - 1)" by (rule rt)
  qed
qed

text \<open>
  Claim C6. While the endpoint is running, \<open>send_telemetry\<close> and
  \<open>send_command_with_retry\<close> hand the same packet to the link at most
  \<open>max_retries + 1\<close> times; no attempt but the last one has seen the matching ACK, so
  the sender stops at the first attempt that sees it; the counter \<open>telemetry_sent\<close>
  (or \<open>commands_sent\<close>) is incremented by one exactly when the last attempt has seen
  the matching ACK and is unchanged otherwise; and when no attempt has seen it the
  sender has made all \<open>max_retries + 1\<close> attempts and returns the state, with one
  retry counted for each attempt after the first. The functions are total: giving up
  is a normal return. The loop counter is an unbounded integer in the model.
\<close>

theorem stop_and_wait_retry:
  assumes "\<forall>k. running k"
  shows "(sat_link_out (send_telemetry mr running inbound telem st)
        = sat_link_out st @ replicate
            (sends_between (sat_link_out st) (sat_link_out (send_telemetry mr running inbound telem st)))
            (make_data TelemetryPkt (sat_tx_seq st) telem)
     \<and> sends_between (sat_link_out st) (sat_link_out (send_telemetry mr running inbound telem st))
         \<le> nat (mr + 1)
     \<and> (\<forall>k. k + 1 < sends_between (sat_link_out st)
                       (sat_link_out (send_telemetry mr running inbound telem st))
            \<longrightarrow> \<not> acked (sat_tx_seq st) (inbound k))
     \<and> sat_telemetry_sent (send_telemetry mr running inbound telem st)
         = sat_telemetry_sent st
           + (if 0 < sends_between (sat_link_out st)
                       (sat_link_out (send_telemetry mr running inbound telem st))
                 \<and> acked (sat_tx_seq st) (inbound
                       (sends_between (sat_link_out st)
                          (sat_link_out (send_telemetry mr running inbound telem st)) - 1))
              then 1 else 0)
     \<and> (\<not> (0 < sends_between (sat_link_out st)
                       (sat_link_out (send_telemetry mr running inbound telem st))
             \<and> acked (sat_tx_seq st) (inbound
                       (sends_between (sat_link_out st)
                          (sat_link_out (send_telemetry mr running inbound telem st)) - 1)))
          \<longrightarrow> sends_between (sat_link_out st)
                (sat_link_out (send_telemetry mr running inbound telem st)) = nat (mr + 1))
     \<and> sat_retries (send_telemetry mr running inbound telem st)
         = sat_retries st
           + of_nat (sends_between (sat_link_out st)
                       (sat_link_out (send_telemetry mr running inbound telem st)) - 1))
   \<and> (gs_link_out (send_command_with_retry mr running inbound cmd gst)
        = gs_link_out gst @ replicate
            (sends_between (gs_link_out gst) (gs_link_out (send_command_with_retry mr running inbound cmd gst)))
            (make_data CommandPkt (gs_tx_seq gst) cmd)
     \<and> sends_between (gs_link_out gst) (gs_link_out (send_command_with_retry mr running inbound cmd gst))
         \<le> nat (mr + 1)
     \<and> (\<forall>k. k + 1 < sends_between (gs_link_out gst)
                       (gs_link_out (send_command_with_retry mr running inbound cmd gst))
            \<longrightarrow> \<not> acked (gs_tx_seq gst) (inbound k))
     \<and> gs_commands_sent (send_command_with_retry mr running inbound cmd gst)
         = gs_commands_sent gst
           + (if 0 < sends_between (gs_link_out gst)
                       (gs_link_out (send_command_with_retry mr running inbound cmd gst))
                 \<and> acked (gs_tx_seq gst) (inbound
                       (sends_between (gs_link_out gst)
                          (gs_link_out (send_command_with_retry mr running inbound cmd gst)) - 1))
              then 1 else 0)
     \<and> (\<not> (0 < sends_between (gs_link_out gst)
                       (gs_link_out (send_command_with_retry mr running inbound cmd gst))
             \<and> acked (gs_tx_seq gst) (inbound
                       (sends_between (gs_link_out gst)
                          (gs_link_out (send_command_with_retry mr running inbound cmd gst)) - 1)))
          \<longrightarrow> sends_between (gs_link_out gst)
                (gs_link_out (send_command_with_retry mr running inbound cmd gst)) = nat (mr + 1))
     \<and> gs_retries (send_command_with_retry mr running inbound cmd gst)
         = gs_retries gst
           + of_nat (sends_between (gs_link_out gst)
                       (gs_link_out (send_command_with_retry mr running inbound cmd gst)) - 1))"
proof -
  have r: "\<And>k. running k" using assms by simp
  show ?thesis
    using send_telemetry_spec[OF r, where inbound = inbound and mr = mr and telem = telem
        and st = st]
      send_command_with_retry_spec[OF r, where inbound = inbound and mr = mr and cmd = cmd
        and st = gst]
    by (rule conjI)
qed

theorem stop_and_wait_retry_witness:
  "sat_telemetry_sent (send_telemetry 3 always_running
      (inbound_of [[], [make_reply AckPkt 0]]) (bytes_of ''hello'') Satellite_new) = 1
   \<and> sat_retries (send_telemetry 3 always_running
      (inbound_of [[], [make_reply AckPkt 0]]) (bytes_of ''hello'') Satellite_new) = 1
   \<and> sat_link_out (send_telemetry 3 always_running
      (inbound_of [[], [make_reply AckPkt 0]]) (bytes_of ''hello'') Satellite_new)
      = [make_data TelemetryPkt 0 (bytes_of ''hello''),
         make_data TelemetryPkt 0 (bytes_of ''hello'')]
   \<and> gs_commands_sent (send_command_with_retry 1 always_running
      (inbound_of [[make_reply NakPkt 0]]) (bytes_of ''REBOOT'') GroundStation_new) = 0
   \<and> gs_retries (send_command_with_retry 1 always_running
      (inbound_of [[make_reply NakPkt 0]]) (bytes_of ''REBOOT'') GroundStation_new) = 1
   \<and> gs_link_out (send_command_with_retry 1 always_running
      (inbound_of [[make_reply NakPkt 0]]) (bytes_of ''REBOOT'') GroundStation_new)
      = [make_data CommandPkt 0 (bytes_of ''REBOOT''),
         make_data CommandPkt 0 (bytes_of ''REBOOT'')]"
proof -
  have run: "\<forall>k. always_running k" by (simp add: always_running_def)
  have s: "sat_link_out (send_telemetry 3 always_running
      (inbound_of [[], [make_reply AckPkt 0]]) (bytes_of ''hello'') Satellite_new)
      = [make_data TelemetryPkt 0 (bytes_of ''hello''),
         make_data TelemetryPkt 0 (bytes_of ''hello'')]"
    by (simp add: send_telemetry_eq sat_retry_loop.simps sat_wait_for_ack_eq always_running_def
        inbound_of_def acked_def nacked_def make_reply_fields make_data_fields Satellite_new_def
        AckPkt_def NakPkt_def)
  have g: "gs_link_out (send_command_with_retry 1 always_running
      (inbound_of [[make_reply NakPkt 0]]) (bytes_of ''REBOOT'') GroundStation_new)
      = [make_data CommandPkt 0 (bytes_of ''REBOOT''),
         make_data CommandPkt 0 (bytes_of ''REBOOT'')]"
    by (simp add: send_command_with_retry_eq gs_retry_loop.simps gs_wait_for_ack_eq
        always_running_def inbound_of_def acked_def make_reply_fields make_data_fields
        GroundStation_new_def AckPkt_def NakPkt_def)
  show ?thesis
    using s g
      stop_and_wait_retry[OF run, where mr = 3 and telem = "bytes_of ''hello''"
        and st = Satellite_new and inbound = "inbound_of [[], [make_reply AckPkt 0]]"]
      stop_and_wait_retry[OF run, where mr = 1 and cmd = "bytes_of ''REBOOT''"
        and gst = GroundStation_new and inbound = "inbound_of [[make_reply NakPkt 0]]"]
    by (simp add: sends_between_def Satellite_new_def GroundStation_new_def inbound_of_def
        acked_def make_reply_fields AckPkt_def NakPkt_def)
qed


end
